theory Spec2Isabelle
  imports Main
begin

section \<open>Port manager (utils/port-manager.js)\<close>

text \<open>
  The manager's state is the set \<open>reservedPorts\<close>.  (The second field of the class,
  \<open>processPortMap\<close>, is never written to and only cleared by \<open>cleanup\<close>.)
  Ports are JavaScript numbers; the model uses \<open>int\<close>.
\<close>

record PortManager =
  reservedPorts :: "int set"

text \<open>
  The options object of \<open>findAvailablePort\<close> with its destructuring defaults
  \<open>portRange = [3000, 9999]\<close>, \<open>reservePort = true\<close>, \<open>avoid = []\<close>.
\<close>

record port_options =
  portRange :: "int \<times> int"
  reservePort :: bool
  avoid :: "int list"

definition default_options :: port_options where
  "default_options = \<lparr>portRange = (3000, 9999), reservePort = True, avoid = []\<rparr>"

datatype port_message = Using_preferred int | Unavailable_using int int

record port_result =
  port :: int
  isPreferred :: bool
  message :: port_message

datatype port_error =
    NoPortAvailable int int  \<comment> \<open>\<open>Cannot find available port in range P-hi\<close>\<close>
  | SocketBadPort int        \<comment> \<open>the \<open>RangeError\<close> of \<open>server.listen\<close>\<close>

text \<open>
  The environment of a call is the set \<open>bound\<close> of ports on which another listener is
  already bound.  \<open>server.listen(port, cb)\<close> of the runtime's \<open>net\<close> module has three
  outcomes: the callback runs (the port could be bound), the \<open>error\<close> event fires
  (address in use), or the call itself throws because the number is no TCP port.
\<close>

datatype listen_outcome = Listening | Listen_error | Bad_port

definition listen :: "int set \<Rightarrow> int \<Rightarrow> listen_outcome" where
  "listen bound p =
     (if p < 0 \<or> 65535 < p then Bad_port
      else if p \<in> bound then Listen_error
      else Listening)"

text \<open>
  The closure \<open>testPort\<close>: an excluded port resolves to \<open>false\<close> before any socket is
  opened; an exception inside the promise executor rejects the promise.
\<close>

definition testPort :: "int set \<Rightarrow> int set \<Rightarrow> int \<Rightarrow> port_error + bool" where
  "testPort excludePorts bound p =
     (if p \<in> excludePorts then Inr False
      else (case listen bound p of
              Listening \<Rightarrow> Inr True
            | Listen_error \<Rightarrow> Inr False
            | Bad_port \<Rightarrow> Inl (SocketBadPort p)))"

text \<open>
  The loop \<open>for (let port = preferredPort + 1; port <= portRange[1]; port++)\<close>,
  started at its first value; \<open>None\<close> is falling out of the loop.
\<close>

function searchPorts :: "int set \<Rightarrow> int set \<Rightarrow> int \<Rightarrow> int \<Rightarrow> port_error + int option" where
  "searchPorts excludePorts bound hi p =
     (if p \<le> hi then
        (case testPort excludePorts bound p of
           Inl e \<Rightarrow> Inl e
         | Inr ok \<Rightarrow> (if ok then Inr (Some p)
                      else searchPorts excludePorts bound hi (p + 1)))
      else Inr None)"
  by pat_completeness auto
termination
  by (relation "measure (\<lambda>(excludePorts, bound, hi, p). nat (hi + 1 - p))") auto

declare searchPorts.simps [simp del]

definition reserve_if :: "bool \<Rightarrow> int \<Rightarrow> PortManager \<Rightarrow> PortManager" where
  "reserve_if b p pm = (if b then pm\<lparr>reservedPorts := insert p (reservedPorts pm)\<rparr> else pm)"

definition findAvailablePort ::
  "int set \<Rightarrow> PortManager \<Rightarrow> int \<Rightarrow> port_options \<Rightarrow> (port_error + port_result) \<times> PortManager"
where
  "findAvailablePort bound pm preferredPort opts =
     (let excludePorts = reservedPorts pm \<union> set (avoid opts) in
      case testPort excludePorts bound preferredPort of
        Inl e \<Rightarrow> (Inl e, pm)
      | Inr True \<Rightarrow>
          (Inr \<lparr>port = preferredPort, isPreferred = True,
                message = Using_preferred preferredPort\<rparr>,
           reserve_if (reservePort opts) preferredPort pm)
      | Inr False \<Rightarrow>
          (case searchPorts excludePorts bound (snd (portRange opts)) (preferredPort + 1) of
             Inl e \<Rightarrow> (Inl e, pm)
           | Inr (Some p) \<Rightarrow>
               (Inr \<lparr>port = p, isPreferred = False,
                     message = Unavailable_using preferredPort p\<rparr>,
                reserve_if (reservePort opts) p pm)
           | Inr None \<Rightarrow>
               (Inl (NoPortAvailable preferredPort (snd (portRange opts))), pm)))"

definition reservePort_op :: "PortManager \<Rightarrow> int \<Rightarrow> PortManager" where
  "reservePort_op pm p = pm\<lparr>reservedPorts := insert p (reservedPorts pm)\<rparr>"

definition releasePort :: "PortManager \<Rightarrow> int \<Rightarrow> PortManager" where
  "releasePort pm p = pm\<lparr>reservedPorts := reservedPorts pm - {p}\<rparr>"

text \<open>
  A port is free for a call when it is neither reserved, nor in the \<open>avoid\<close> list, nor
  bound by another listener.
\<close>

definition port_free :: "int set \<Rightarrow> PortManager \<Rightarrow> port_options \<Rightarrow> int \<Rightarrow> bool" where
  "port_free bound pm opts p \<longleftrightarrow>
     p \<notin> reservedPorts pm \<and> p \<notin> set (avoid opts) \<and> p \<notin> bound"



section \<open>Health checker (scripts/health-check.js)\<close>

text \<open>
  \<open>String.prototype.includes\<close> and \<open>startsWith\<close> on byte strings.
\<close>

fun starts_with :: "string \<Rightarrow> string \<Rightarrow> bool" where
  "starts_with s [] = True"
| "starts_with [] (c # t) = False"
| "starts_with (d # s) (c # t) = (d = c \<and> starts_with s t)"

fun str_includes :: "string \<Rightarrow> string \<Rightarrow> bool" where
  "str_includes [] t = (t = [])"
| "str_includes (d # s) t = (starts_with (d # s) t \<or> str_includes s t)"

text \<open>Decimal rendering of a natural number, as template literals do.\<close>

definition digit_char :: "nat \<Rightarrow> char" where
  "digit_char d = char_of (48 + d)"

function show_nat :: "nat \<Rightarrow> string" where
  "show_nat n = (if n < 10 then [digit_char n] else show_nat (n div 10) @ [digit_char (n mod 10)])"
  by pat_completeness auto
termination
  by (relation "measure id") auto

declare show_nat.simps [simp del]

datatype health_status = Healthy | Degraded | Unhealthy

datatype api_state = Api_healthy | Api_unhealthy string

datatype api_entry = Single api_state | Group "(string \<times> api_state) list"

text \<open>
  The object \<open>this.healthData\<close>.  Time stamps, response times and the purely
  informational \<open>performance\<close>, \<open>rateLimits\<close> and \<open>workflows\<close> fields are left out: no
  status depends on them.
\<close>

record healthData =
  status :: health_status
  apis :: "(string \<times> api_entry) list"
  warnings :: "string list"
  errors :: "string list"

text \<open>The constructor.\<close>

definition new_healthData :: healthData where
  "new_healthData = \<lparr>status = Healthy, apis = [], warnings = [], errors = []\<rparr>"

text \<open>
  An awaited HTTP call either resolves with the part of the response the code reads, or
  rejects with an error whose \<open>message\<close> is kept.  For the model list of the first
  probe a body of unexpected shape makes the \<open>try\<close> block throw a \<open>TypeError\<close>, which
  the same \<open>catch\<close> handles: it is a rejection here.
\<close>

datatype 'a outcome = Resolved 'a | Rejected string

datatype probe = P_openai | P_instagram | P_tiktok | P_apify | P_airtable

definition all_probes :: "probe list" where
  "all_probes = [P_openai, P_instagram, P_tiktok, P_apify, P_airtable]"

record health_env =
  openai_models :: "string list outcome"   \<comment> \<open>the ids of \<open>response.data.data\<close>\<close>
  instagram_get :: "unit outcome"
  tiktok_get :: "unit outcome"
  apify_get :: "unit outcome"
  airtable_get :: "unit outcome"
  heapUsedMB :: nat
  diskUsedPercent :: "int option"         \<comment> \<open>\<open>parseInt(diskSpace.usedPercentage)\<close>, if any\<close>
  diskUsedText :: string
  performance_throws :: "string option"   \<comment> \<open>an exception of the file-system reads\<close>
  save_throws :: "string option"          \<comment> \<open>an exception inside \<open>saveHealthReport\<close>\<close>
  print_throws :: "string option"         \<comment> \<open>an exception inside \<open>printSummary\<close>\<close>

text \<open>
  Assigning a property of an object: an existing key keeps its place, a new key comes
  last.
\<close>

fun assoc_set :: "string \<Rightarrow> 'v \<Rightarrow> (string \<times> 'v) list \<Rightarrow> (string \<times> 'v) list" where
  "assoc_set k v [] = [(k, v)]"
| "assoc_set k v ((k', v') # kvs) =
     (if k' = k then (k, v) # kvs else (k', v') # assoc_set k v kvs)"

definition set_api :: "string \<Rightarrow> api_entry \<Rightarrow> healthData \<Rightarrow> healthData" where
  "set_api k v h = h\<lparr>apis := assoc_set k v (apis h)\<rparr>"

definition push_error :: "string \<Rightarrow> healthData \<Rightarrow> healthData" where
  "push_error e h = h\<lparr>errors := errors h @ [e]\<rparr>"

definition push_warning :: "string \<Rightarrow> healthData \<Rightarrow> healthData" where
  "push_warning w h = h\<lparr>warnings := warnings h @ [w]\<rparr>"

definition rapid_state :: "unit outcome \<Rightarrow> api_state" where
  "rapid_state r = (case r of Resolved u \<Rightarrow> Api_healthy | Rejected m \<Rightarrow> Api_unhealthy m)"

text \<open>
  What each check does to \<open>healthData\<close> when the response of a probe arrives:
  \<open>checkOpenAIHealth\<close>, the two iterations of the loop of \<open>checkRapidAPIHealth\<close> (the
  second one also stores the local \<open>results\<close> object), \<open>checkApifyHealth\<close> and
  \<open>checkAirTableHealth\<close>.
\<close>

fun complete_probe :: "health_env \<Rightarrow> probe \<Rightarrow> healthData \<Rightarrow> healthData" where
  "complete_probe env P_openai h =
     (case openai_models env of
        Resolved models \<Rightarrow>
          (let h1 = set_api ''openai'' (Single Api_healthy) h in
           if \<not> list_ex (\<lambda>m. str_includes m ''gpt-4'') models
           then push_warning ''GPT-4 model not available'' h1 else h1)
      | Rejected m \<Rightarrow>
          push_error (''OpenAI API: '' @ m) (set_api ''openai'' (Single (Api_unhealthy m)) h))"
| "complete_probe env P_instagram h =
     (case instagram_get env of
        Resolved u \<Rightarrow> h
      | Rejected m \<Rightarrow> push_error (''Instagram Scraper: '' @ m) h)"
| "complete_probe env P_tiktok h =
     set_api ''rapidapi''
       (Group [(''instagram_scraper'', rapid_state (instagram_get env)),
               (''tiktok_api'', rapid_state (tiktok_get env))])
       (case tiktok_get env of
          Resolved u \<Rightarrow> h
        | Rejected m \<Rightarrow> push_error (''TikTok API: '' @ m) h)"
| "complete_probe env P_apify h =
     (case apify_get env of
        Resolved u \<Rightarrow> set_api ''apify'' (Single Api_healthy) h
      | Rejected m \<Rightarrow>
          push_error (''Apify API: '' @ m) (set_api ''apify'' (Single (Api_unhealthy m)) h))"
| "complete_probe env P_airtable h =
     (case airtable_get env of
        Resolved u \<Rightarrow> set_api ''airtable'' (Single Api_healthy) h
      | Rejected m \<Rightarrow>
          push_error (''AirTable API: '' @ m)
            (set_api ''airtable'' (Single (Api_unhealthy m)) h))"

text \<open>
  The four checks run concurrently under \<open>Promise.all\<close>; the order in which the five
  responses arrive is the \<open>schedule\<close>.  In a schedule of a real run every probe occurs
  once, and the second RapidAPI probe is only sent after the first has completed.
\<close>

definition run_probes :: "health_env \<Rightarrow> probe list \<Rightarrow> healthData \<Rightarrow> healthData" where
  "run_probes env schedule h = foldl (\<lambda>h p. complete_probe env p h) h schedule"

fun before :: "probe \<Rightarrow> probe \<Rightarrow> probe list \<Rightarrow> bool" where
  "before a b [] = False"
| "before a b (p # ps) = (if p = a then b \<in> set ps else if p = b then False else before a b ps)"

definition valid_schedule :: "probe list \<Rightarrow> bool" where
  "valid_schedule s \<longleftrightarrow>
     distinct s \<and> set s = set all_probes \<and> before P_instagram P_tiktok s"

text \<open>
  The prefix of the error entry of a probe, and the message of its rejection if it was
  rejected (used to state what the checks record).
\<close>

fun probe_label :: "probe \<Rightarrow> string" where
  "probe_label P_openai = ''OpenAI API: ''"
| "probe_label P_instagram = ''Instagram Scraper: ''"
| "probe_label P_tiktok = ''TikTok API: ''"
| "probe_label P_apify = ''Apify API: ''"
| "probe_label P_airtable = ''AirTable API: ''"

definition rejection :: "'a outcome \<Rightarrow> string option" where
  "rejection r = (case r of Resolved x \<Rightarrow> None | Rejected m \<Rightarrow> Some m)"

fun probe_rejection :: "health_env \<Rightarrow> probe \<Rightarrow> string option" where
  "probe_rejection env P_openai = rejection (openai_models env)"
| "probe_rejection env P_instagram = rejection (instagram_get env)"
| "probe_rejection env P_tiktok = rejection (tiktok_get env)"
| "probe_rejection env P_apify = rejection (apify_get env)"
| "probe_rejection env P_airtable = rejection (airtable_get env)"

text \<open>\<open>checkSystemPerformance\<close>: the two warnings, or an exception.\<close>

definition checkSystemPerformance :: "health_env \<Rightarrow> healthData \<Rightarrow> string + healthData" where
  "checkSystemPerformance env h =
     (case performance_throws env of
        Some e \<Rightarrow> Inl e
      | None \<Rightarrow>
          (let h1 = (if 512 < heapUsedMB env
                     then push_warning (''High memory usage: '' @ show_nat (heapUsedMB env) @ ''MB'') h else h);
               h2 = (case diskUsedPercent env of
                       Some pct \<Rightarrow>
                         (if 80 < pct
                          then push_warning (''High disk usage: '' @ diskUsedText env) h1
                          else h1)
                     | None \<Rightarrow> h1)
           in Inr h2))"

text \<open>
  \<open>generateHealthReport\<close>.  \<open>checkRateLimits\<close> and \<open>checkWorkflowStatus\<close> catch their
  own exceptions and touch neither \<open>errors\<close> nor \<open>warnings\<close>.
\<close>

definition overall_status :: "healthData \<Rightarrow> health_status" where
  "overall_status h =
     (if errors h \<noteq> [] then Unhealthy
      else if warnings h \<noteq> [] then Degraded
      else Healthy)"

definition generateHealthReport ::
  "health_env \<Rightarrow> probe list \<Rightarrow> healthData \<Rightarrow> string + healthData"
where
  "generateHealthReport env schedule h =
     (case checkSystemPerformance env (run_probes env schedule h) of
        Inl e \<Rightarrow> Inl e
      | Inr h1 \<Rightarrow>
          Inr (h1\<lparr>status :=
                 (if length (errors h1) > 0 then Unhealthy
                  else if length (warnings h1) > 0 then Degraded
                  else Healthy)\<rparr>))"

text \<open>
  \<open>run\<close> and the main block: the result object and the exit code of the script.
\<close>

record run_result =
  success :: bool
  run_status :: "health_status option"
  run_error :: "string option"

definition run_failed :: "string \<Rightarrow> run_result" where
  "run_failed e = \<lparr>success = False, run_status = None, run_error = Some e\<rparr>"

definition run :: "health_env \<Rightarrow> probe list \<Rightarrow> healthData \<Rightarrow> run_result" where
  "run env schedule h =
     (case generateHealthReport env schedule h of
        Inl e \<Rightarrow> run_failed e
      | Inr h1 \<Rightarrow>
          (case save_throws env of
             Some e \<Rightarrow> run_failed e
           | None \<Rightarrow>
               (case print_throws env of
                  Some e \<Rightarrow> run_failed e
                | None \<Rightarrow>
                    \<lparr>success = (status h1 \<noteq> Unhealthy),
                     run_status = Some (status h1),
                     run_error = None\<rparr>)))"

definition health_check_main :: "health_env \<Rightarrow> probe list \<Rightarrow> int" where
  "health_check_main env schedule =
     (if success (run env schedule new_healthData) then 0 else 1)"


section \<open>Setup validator (scripts/validate-setup.js)\<close>

text \<open>Parsed JSON values and JavaScript truthiness.\<close>

datatype json =
    JNull
  | JBool bool
  | JNum int
  | JStr string
  | JArr "json list"
  | JObj "(string \<times> json) list"

fun truthy :: "json \<Rightarrow> bool" where
  "truthy JNull = False"
| "truthy (JBool b) = b"
| "truthy (JNum n) = (n \<noteq> 0)"
| "truthy (JStr s) = (s \<noteq> [])"
| "truthy (JArr xs) = True"
| "truthy (JObj kvs) = True"

text \<open>
  Reading a property \<open>v.k\<close> for the names the validator reads (\<open>tables\<close>, \<open>base_name\<close>,
  \<open>instagram\<close>, \<open>linkedin\<close>, \<open>tiktok\<close>): on \<open>null\<close> it throws a \<open>TypeError\<close>, on an
  object it is the value of the last member of that name, and \<open>undefined\<close> (\<open>None\<close>)
  otherwise.
\<close>

fun get_prop :: "json \<Rightarrow> string \<Rightarrow> string + json option" where
  "get_prop JNull k =
     Inl (''Cannot read properties of null (reading '' @ [CHR 0x27] @ k @ [CHR 0x27] @ '')'')"
| "get_prop (JObj kvs) k = Inr (map_of (rev kvs) k)"
| "get_prop v k = Inr None"

text \<open>\<open>!v.k\<close>\<close>

definition prop_missing :: "json \<Rightarrow> string \<Rightarrow> string + bool" where
  "prop_missing v k =
     (case get_prop v k of
        Inl e \<Rightarrow> Inl e
      | Inr None \<Rightarrow> Inr True
      | Inr (Some x) \<Rightarrow> Inr (\<not> truthy x))"

text \<open>
  A file is seen through \<open>JSON.parse(fs.readFileSync(...))\<close>: its parsed value, or the
  message of the exception.  The file system maps the project-relative path to the file.
\<close>

datatype file_content = Parsed json | Unparsable string

type_synonym file_system = "string \<Rightarrow> file_content option"

datatype vresult = Success | Failure string

definition configFiles :: "string list" where
  "configFiles = [''config/airtable-schema.json'', ''config/platforms.json'', ''.env.example'']"

definition parse_file :: "file_system \<Rightarrow> string \<Rightarrow> string + json" where
  "parse_file files p =
     (case files p of
        None \<Rightarrow> Inl (''ENOENT: no such file or directory, open '' @ p)
      | Some (Unparsable m) \<Rightarrow> Inl m
      | Some (Parsed v) \<Rightarrow> Inr v)"

text \<open>
  The \<open>try\<close> block of \<open>validateConfigurationFiles\<close>; \<open>||\<close> evaluates its operands from
  the left and stops at the first true one.  \<open>Inl\<close> is an exception thrown inside the
  block, \<open>Inr Success\<close> is leaving the block without a \<open>return\<close>.
\<close>

fun first_missing :: "json \<Rightarrow> string list \<Rightarrow> string + bool" where
  "first_missing v [] = Inr False"
| "first_missing v (k # ks) =
     (case prop_missing v k of
        Inl e \<Rightarrow> Inl e
      | Inr True \<Rightarrow> Inr True
      | Inr False \<Rightarrow> first_missing v ks)"

definition config_try :: "file_system \<Rightarrow> string + vresult" where
  "config_try files =
     (case parse_file files ''config/airtable-schema.json'' of
        Inl e \<Rightarrow> Inl e
      | Inr airtableSchema \<Rightarrow>
     (case parse_file files ''config/platforms.json'' of
        Inl e \<Rightarrow> Inl e
      | Inr platformsConfig \<Rightarrow>
     (case first_missing airtableSchema [''tables'', ''base_name''] of
        Inl e \<Rightarrow> Inl e
      | Inr True \<Rightarrow> Inr (Failure ''Invalid AirTable schema structure'')
      | Inr False \<Rightarrow>
     (case first_missing platformsConfig [''instagram'', ''linkedin'', ''tiktok''] of
        Inl e \<Rightarrow> Inl e
      | Inr True \<Rightarrow> Inr (Failure ''Invalid platforms configuration structure'')
      | Inr False \<Rightarrow> Inr Success))))"

definition validateConfigurationFiles :: "file_system \<Rightarrow> vresult" where
  "validateConfigurationFiles files =
     (case find (\<lambda>p. files p = None) configFiles of
        Some p \<Rightarrow> Failure (''Missing configuration file: '' @ p)
      | None \<Rightarrow>
          (case config_try files of
             Inl m \<Rightarrow> Failure (''Error parsing configuration files: '' @ m)
           | Inr r \<Rightarrow> r))"

text \<open>
  The validator object.  \<open>check\<close> and \<open>asyncCheck\<close> differ only in awaiting the
  validation function: its outcome is a returned result (\<open>Resolved\<close>) or a thrown
  exception (\<open>Rejected\<close>).  A result without a message is reported as \<open>Check failed\<close>.
\<close>

record validator =
  v_errors :: "string list"
  v_warnings :: "string list"
  checks :: nat
  passed :: nat

definition new_validator :: validator where
  "new_validator = \<lparr>v_errors = [], v_warnings = [], checks = 0, passed = 0\<rparr>"

definition check :: "string \<Rightarrow> vresult outcome \<Rightarrow> validator \<Rightarrow> bool \<times> validator" where
  "check description result v =
     (let v1 = v\<lparr>checks := checks v + 1\<rparr> in
      case result of
        Resolved Success \<Rightarrow> (True, v1\<lparr>passed := passed v1 + 1\<rparr>)
      | Resolved (Failure m) \<Rightarrow>
          (False, v1\<lparr>v_errors := v_errors v1 @
                       [description @ '': '' @ (if m = [] then ''Check failed'' else m)]\<rparr>)
      | Rejected m \<Rightarrow>
          (False, v1\<lparr>v_errors := v_errors v1 @ [description @ '': '' @ m]\<rparr>))"

definition warn :: "string \<Rightarrow> validator \<Rightarrow> validator" where
  "warn m v = v\<lparr>v_warnings := v_warnings v @ [m]\<rparr>"

text \<open>
  The environment of \<open>runValidation\<close>: the configuration files, and for each other
  validation function its outcome and the warnings it emits on the way.
\<close>

record validation_env =
  files :: file_system
  systemDependencies :: "vresult outcome"
  environmentVariables :: "vresult outcome"
  workflowFiles :: "vresult outcome"
  promptFiles :: "vresult outcome"
  promptWarnings :: "string list"
  documentation :: "vresult outcome"
  openAICredentials :: "vresult outcome"
  openAIWarnings :: "string list"
  rapidAPICredentials :: "vresult outcome"
  apifyCredentials :: "vresult outcome"
  airTableCredentials :: "vresult outcome"

definition validation_steps :: "validation_env \<Rightarrow> (string \<times> string list \<times> vresult outcome) list" where
  "validation_steps env =
     [(''System dependencies (Node.js, npm, git)'', [], systemDependencies env),
      (''Environment variables'', [], environmentVariables env),
      (''Configuration files'', [], Resolved (validateConfigurationFiles (files env))),
      (''Workflow files'', [], workflowFiles env),
      (''Prompt files'', promptWarnings env, promptFiles env),
      (''Documentation files'', [], documentation env),
      (''OpenAI API credentials'', openAIWarnings env, openAICredentials env),
      (''RapidAPI credentials'', [], rapidAPICredentials env),
      (''Apify API credentials'', [], apifyCredentials env),
      (''AirTable API credentials'', [], airTableCredentials env)]"

definition run_step :: "validator \<Rightarrow> string \<times> string list \<times> vresult outcome \<Rightarrow> validator" where
  "run_step v step =
     (case step of (description, ws, result) \<Rightarrow>
        snd (check description result (foldl (\<lambda>v w. warn w v) v ws)))"

record validation_result =
  vr_success :: bool
  vr_passed :: nat
  vr_total :: nat
  vr_errors :: "string list"
  vr_warnings :: "string list"

definition runValidation :: "validation_env \<Rightarrow> validator \<Rightarrow> validation_result" where
  "runValidation env v =
     (let v1 = foldl run_step v (validation_steps env) in
      \<lparr>vr_success = (length (v_errors v1) = 0),
       vr_passed = passed v1,
       vr_total = checks v1,
       vr_errors = v_errors v1,
       vr_warnings = v_warnings v1\<rparr>)"


section \<open>Process manager (utils/process-manager.js)\<close>

datatype signal = SIGTERM | SIGKILL | SIGINT | SIGQUIT

datatype proc_status = Starting | Running | Stopping | Exited | Errored

text \<open>
  The handle of a child process, as the runtime's \<open>ChildProcess\<close> behaves:
  \<open>kill(signal)\<close> delivers the signal and sets \<open>killed\<close> when the process still exists,
  and returns \<open>false\<close> without any effect once it has exited.  So \<open>killed\<close> says that a
  signal was sent, not that the process has terminated.  \<open>received\<close> lists the signals
  delivered to the process.
\<close>

record child =
  killed :: bool
  exited :: bool
  exitCode :: "int option"
  received :: "signal list"

definition new_child :: child where
  "new_child = \<lparr>killed = False, exited = False, exitCode = None, received = []\<rparr>"

definition kill_child :: "signal \<Rightarrow> child \<Rightarrow> bool \<times> child" where
  "kill_child sg c =
     (if exited c then (False, c)
      else (True, c\<lparr>killed := True, received := received c @ [sg]\<rparr>))"

text \<open>
  The options of \<open>spawnProcess\<close> that the manager itself interprets, with the defaults
  \<open>timeout = 0\<close>, \<open>retries = 0\<close>, \<open>restartDelay = 5000\<close>.
\<close>

record spawn_options =
  timeout :: nat
  retries :: int
  restartDelay :: nat

definition default_spawn_options :: spawn_options where
  "default_spawn_options = \<lparr>timeout = 0, retries = 0, restartDelay = 5000\<rparr>"

record processConfig =
  name :: string
  command :: string
  args :: "string list"
  options :: spawn_options
  restartCount :: nat
  maxRestarts :: int
  pc_restartDelay :: nat
  pc_status :: proc_status
  pc_exitCode :: "int option"
  exitSignal :: "signal option"
  process :: child

text \<open>
  What the manager does to the outside: calls of \<open>child_process.spawn\<close> and emitted
  events.
\<close>

datatype effect =
    Spawn string string "string list"
  | ProcessExit string "int option" "signal option"
  | ProcessRestart string nat
  | ProcessRestartFailed string
  | ProcessTimeout string nat
  | Shutdown_event

text \<open>
  Pending \<open>setTimeout\<close> callbacks: the restart of a process (the callback closes over
  the arguments of the \<open>spawnProcess\<close> call), the forced kill five seconds after
  \<open>killProcess\<close>, and the overall timeout of a process.
\<close>

datatype timer =
    Restart_timer string string "string list" spawn_options nat
  | Kill_timer nat
  | Timeout_timer nat string nat

text \<open>
  The manager.  \<open>processes\<close> is the \<open>Map\<close> from names to configuration objects, in
  insertion order; the objects live in \<open>heap\<close> and are referred to by number, because
  the exit handler of a child closes over its configuration object and mutates it
  whether or not the map still holds it.
\<close>

record manager =
  processes :: "(string \<times> nat) list"
  heap :: "nat \<Rightarrow> processConfig"
  isShuttingDown :: bool
  timers :: "timer list"
  log :: "effect list"
  next_ref :: nat

definition blank_config :: processConfig where
  "blank_config =
     \<lparr>name = [], command = [], args = [], options = default_spawn_options,
      restartCount = 0, maxRestarts = 0, pc_restartDelay = 0, pc_status = Exited,
      pc_exitCode = None, exitSignal = None, process = new_child\<lparr>exited := True\<rparr>\<rparr>"

definition new_manager :: manager where
  "new_manager =
     \<lparr>processes = [], heap = (\<lambda>r. blank_config), isShuttingDown = False, timers = [],
      log = [], next_ref = 0\<rparr>"

datatype pm_error = AlreadyRunning string | NotFound string

definition map_delete :: "string \<Rightarrow> (string \<times> nat) list \<Rightarrow> (string \<times> nat) list" where
  "map_delete nm ps = filter (\<lambda>e. fst e \<noteq> nm) ps"

text \<open>
  \<open>spawnProcess\<close> up to its first suspension: the duplicate check, the new
  configuration object with \<open>restartCount: 0\<close>, the spawned child, the registration and
  the timeout timer.  (The promise that waits for the start is not part of the model;
  the result is the reference of the new configuration object.)
\<close>

definition initial_config :: "string \<Rightarrow> string \<Rightarrow> string list \<Rightarrow> spawn_options \<Rightarrow> processConfig" where
  "initial_config nm cmd as opts =
     \<lparr>name = nm, command = cmd, args = as, options = opts,
      restartCount = 0, maxRestarts = retries opts,
      pc_restartDelay = restartDelay opts, pc_status = Starting,
      pc_exitCode = None, exitSignal = None, process = new_child\<rparr>"

definition spawnProcess ::
  "manager \<Rightarrow> string \<Rightarrow> string \<Rightarrow> string list \<Rightarrow> spawn_options \<Rightarrow> (pm_error + nat) \<times> manager"
where
  "spawnProcess m nm cmd as opts =
     (if map_of (processes m) nm \<noteq> None then (Inl (AlreadyRunning nm), m)
      else
        (let r = next_ref m;
             processConfig = initial_config nm cmd as opts
         in (Inr r,
             m\<lparr>processes := processes m @ [(nm, r)],
               heap := (heap m)(r := processConfig),
               timers := timers m @
                 (if timeout opts > 0 then [Timeout_timer r nm (timeout opts)] else []),
               log := log m @ [Spawn nm cmd as],
               next_ref := r + 1\<rparr>)))"

text \<open>
  The \<open>exit\<close> handler of the child of configuration object \<open>r\<close>.  The exit code is
  \<open>null\<close> (\<open>None\<close>) when the child was terminated by a signal.
\<close>

definition is_timeout_of :: "nat \<Rightarrow> timer \<Rightarrow> bool" where
  "is_timeout_of r t = (case t of Timeout_timer r' nm ms \<Rightarrow> r' = r | _ \<Rightarrow> False)"

definition on_exit :: "manager \<Rightarrow> nat \<Rightarrow> int option \<Rightarrow> signal option \<Rightarrow> manager" where
  "on_exit m r code sg =
     (let cfg = heap m r;
          cfg1 = cfg\<lparr>pc_status := Exited, pc_exitCode := code, exitSignal := sg,
                     process := (process cfg)\<lparr>exited := True, exitCode := code\<rparr>\<rparr>;
          m1 = m\<lparr>timers := filter (\<lambda>t. \<not> is_timeout_of r t) (timers m),
                 log := log m @ [ProcessExit (name cfg) code sg]\<rparr>
      in if code \<noteq> Some 0 \<and> int (restartCount cfg1) < maxRestarts cfg1 \<and> \<not> isShuttingDown m
         then m1\<lparr>heap := (heap m)(r := cfg1\<lparr>restartCount := restartCount cfg1 + 1\<rparr>),
                 log := log m1 @ [ProcessRestart (name cfg) (restartCount cfg1 + 1)],
                 timers := timers m1 @
                   [Restart_timer (name cfg) (command cfg) (args cfg) (options cfg)
                      (pc_restartDelay cfg1)]\<rparr>
         else m1\<lparr>heap := (heap m)(r := cfg1),
                 processes := map_delete (name cfg) (processes m)\<rparr>)"

text \<open>\<open>killProcess\<close>\<close>

definition killProcess :: "manager \<Rightarrow> string \<Rightarrow> signal \<Rightarrow> (pm_error + bool) \<times> manager" where
  "killProcess m nm sg =
     (case map_of (processes m) nm of
        None \<Rightarrow> (Inl (NotFound nm), m)
      | Some r \<Rightarrow>
          (let cfg = heap m r in
           if \<not> killed (process cfg) then
             (Inr True,
              m\<lparr>heap := (heap m)(r := cfg\<lparr>pc_status := Stopping,
                                           process := snd (kill_child sg (process cfg))\<rparr>),
                timers := timers m @ (if sg \<noteq> SIGKILL then [Kill_timer r] else [])\<rparr>)
           else (Inr False, m)))"

text \<open>The callbacks of the three kinds of timer.\<close>

definition fire_restart ::
  "manager \<Rightarrow> string \<Rightarrow> string \<Rightarrow> string list \<Rightarrow> spawn_options \<Rightarrow> manager"
where
  "fire_restart m nm cmd as opts =
     (case spawnProcess (m\<lparr>processes := map_delete nm (processes m)\<rparr>) nm cmd as opts of
        (Inl e, m') \<Rightarrow> m'\<lparr>log := log m' @ [ProcessRestartFailed nm]\<rparr>
      | (Inr r, m') \<Rightarrow> m')"

definition fire_kill :: "manager \<Rightarrow> nat \<Rightarrow> manager" where
  "fire_kill m r =
     (let cfg = heap m r in
      if \<not> killed (process cfg)
      then m\<lparr>heap := (heap m)(r := cfg\<lparr>process := snd (kill_child SIGKILL (process cfg))\<rparr>)\<rparr>
      else m)"

fun fire_timer :: "manager \<Rightarrow> timer \<Rightarrow> manager" where
  "fire_timer m (Restart_timer nm cmd as opts delay) = fire_restart m nm cmd as opts"
| "fire_timer m (Kill_timer r) = fire_kill m r"
| "fire_timer m (Timeout_timer r nm ms) =
     (let m' = snd (killProcess m nm SIGKILL) in m'\<lparr>log := log m' @ [ProcessTimeout nm ms]\<rparr>)"

definition run_timers :: "manager \<Rightarrow> manager" where
  "run_timers m = foldl fire_timer (m\<lparr>timers := []\<rparr>) (timers m)"

text \<open>
  \<open>shutdown\<close>.  Every element of \<open>shutdownPromises\<close> is an \<open>async\<close> function that runs
  without suspension through \<open>killProcess(name, 'SIGTERM')\<close>; so all the \<open>SIGTERM\<close>
  calls happen first, in the order of the map (\<open>stop_begin\<close>; its result says whether
  the function goes on to wait).  Then each function waits for the exit of its process
  (\<open>stop_finish\<close>): \<open>waitForProcessExit\<close> resolves at once when the name is not
  registered or the status is \<open>exited\<close>, resolves when the \<open>exit\<close> event comes, and
  rejects after ten seconds; the \<open>catch\<close> block then calls
  \<open>killProcess(name, 'SIGKILL')\<close> and swallows its exception.  The environment \<open>env\<close>
  says for every child whether it exits within these ten seconds, and how.  At the end
  the map is cleared.  (Console output and the health-monitoring interval are left
  out.)
\<close>

definition stop_begin :: "manager \<Rightarrow> string \<Rightarrow> bool \<times> manager" where
  "stop_begin m nm =
     (case killProcess m nm SIGTERM of
        (Inl e, m') \<Rightarrow> (False, snd (killProcess m' nm SIGKILL))
      | (Inr b, m') \<Rightarrow> (True, m'))"

fun stop_begin_all :: "manager \<Rightarrow> string list \<Rightarrow> string list \<times> manager" where
  "stop_begin_all m [] = ([], m)"
| "stop_begin_all m (nm # nms) =
     (case stop_begin m nm of
        (waits, m') \<Rightarrow>
          (case stop_begin_all m' nms of
             (ws, m'') \<Rightarrow> ((if waits then nm # ws else ws), m'')))"

definition stop_finish ::
  "(nat \<Rightarrow> (int option \<times> signal option) option) \<Rightarrow> manager \<Rightarrow> string \<Rightarrow> manager"
where
  "stop_finish env m nm =
     (case map_of (processes m) nm of
        None \<Rightarrow> m
      | Some r \<Rightarrow>
          (if pc_status (heap m r) = Exited then m
           else (case env r of
                   Some (code, sg) \<Rightarrow> on_exit m r code sg
                 | None \<Rightarrow> snd (killProcess m nm SIGKILL))))"

definition shutdown ::
  "(nat \<Rightarrow> (int option \<times> signal option) option) \<Rightarrow> manager \<Rightarrow> manager"
where
  "shutdown env m =
     (if isShuttingDown m then m
      else
        (let m1 = m\<lparr>isShuttingDown := True, log := log m @ [Shutdown_event]\<rparr>;
             (waiting, m2) = stop_begin_all m1 (map fst (processes m1));
             m3 = foldl (stop_finish env) m2 waiting
         in m3\<lparr>processes := []\<rparr>))"

text \<open>
  A process whose command always exits with the given code: its registered child exits,
  the exit handler runs, and then the pending timers fire.
\<close>

definition crash :: "string \<Rightarrow> int \<Rightarrow> manager \<Rightarrow> manager" where
  "crash nm code m =
     (case map_of (processes m) nm of
        None \<Rightarrow> m
      | Some r \<Rightarrow> run_timers (on_exit m r (Some code) None))"

primrec crash_loop :: "nat \<Rightarrow> string \<Rightarrow> int \<Rightarrow> manager \<Rightarrow> manager" where
  "crash_loop 0 nm code m = m"
| "crash_loop (Suc n) nm code m = crash nm code (crash_loop n nm code m)"

fun is_spawn :: "effect \<Rightarrow> bool" where
  "is_spawn (Spawn nm cmd as) = True"
| "is_spawn e = False"

definition spawn_attempts :: "manager \<Rightarrow> nat" where
  "spawn_attempts m = length (filter is_spawn (log m))"


text \<open>
  The signals a child has received, and whether a configuration object is registered
  under some name.
\<close>

definition received_by :: "manager \<Rightarrow> nat \<Rightarrow> signal list" where
  "received_by m r = received (process (heap m r))"

definition registered :: "manager \<Rightarrow> nat \<Rightarrow> bool" where
  "registered m r = list_ex (\<lambda>nm. map_of (processes m) nm = Some r) (map fst (processes m))"

text \<open>
  Invariant of the waiting phase of \<open>shutdown\<close>: every registered child has been
  signalled or has exited.
\<close>

definition all_signalled :: "manager \<Rightarrow> bool" where
  "all_signalled m \<longleftrightarrow>
     (\<forall>nm r. map_of (processes m) nm = Some r \<longrightarrow>
        killed (process (heap m r)) \<or> exited (process (heap m r)))"

text \<open>
  Two environments of \<open>shutdown\<close>: every child exits on the signal, and no child exits.
\<close>

definition cooperative :: "nat \<Rightarrow> (int option \<times> signal option) option" where
  "cooperative r = Some (None, Some SIGTERM)"

definition stubborn :: "nat \<Rightarrow> (int option \<times> signal option) option" where
  "stubborn r = None"


section \<open>Startup sequencer (start.js)\<close>

record startup_options =
  skipTests :: bool
  skipValidation :: bool
  skipHealthCheck :: bool
  openBrowser :: bool
  dashboard_port :: int
  production :: bool      \<comment> \<open>\<open>mode === 'production'\<close>\<close>
  gui :: bool
  quick :: bool

text \<open>
  The status a step returns: the text after its leading check mark, warning sign or
  skip sign; \<open>No_report\<close> is a step that returns nothing.
\<close>

datatype report = Pass string | Warn string | Skip string | No_report

text \<open>
  The outcome of \<open>execAsync(command)\<close>: the two output streams, or a rejection with its
  message (\<open>Exec_timeout\<close> is the rejection whose \<open>code\<close> is \<open>TIMEOUT\<close>).
\<close>

datatype exec_outcome = Exec_ok string string | Exec_error string | Exec_timeout string

text \<open>
  How the spawned dashboard answers: its output announces the port, nothing arrives for
  thirty seconds, its error output reports \<open>EADDRINUSE\<close>, the spawn fails, or the
  process exits with a non-zero code.
\<close>

datatype dashboard_outcome =
    Dashboard_started
  | Dashboard_timeout
  | Dashboard_addr_in_use
  | Dashboard_error string
  | Dashboard_exited int

record startup_env =
  nodeVersion :: string
  nodeMajor :: nat
  freeMemMB :: nat
  cwd_accessible :: bool
  env_file_exists :: bool
  env_example_copied :: bool
  node_modules_exists :: bool
  npm_install :: exec_outcome
  npm_test :: exec_outcome
  npm_coverage :: exec_outcome
  validate_setup :: exec_outcome
  health_check :: exec_outcome
  bound_ports :: "int set"
  dashboard :: dashboard_outcome
  gui_launcher_throws :: "string option"
  welcome_throws :: "string option"




text \<open>
  Decimal digits, \<open>parseInt\<close> on a string of digits, and the two regular expressions
  of the sequencer.

  \<open>/(\d+) passed/\<close> and \<open>/(\d+) failed/\<close>: the leftmost run of digits that is followed
  by the word; the group is the whole run (a shorter part of a run is followed by a
  digit, not by the blank).

  \<open>/All files[^|]*\|[^|]*\|[^|]*\|[^|]*\|[^|]*(\d+(?:\.\d+)?)/\<close>: after \<open>All files\<close>
  four bars are passed; the last \<open>[^|]*\<close> is greedy and gives back only as much as the
  group needs, so the group is the last digit before the next bar (or the end of the
  output), and never more than this one digit.  When the pattern fails at one
  occurrence of \<open>All files\<close>, the search goes on to the right.
\<close>

definition is_digit :: "char \<Rightarrow> bool" where
  "is_digit c \<longleftrightarrow> c \<in> set ''0123456789''"

definition digit_value :: "char \<Rightarrow> nat" where
  "digit_value c = length (takeWhile (\<lambda>d. d \<noteq> c) ''0123456789'')"



definition after_bar :: "string \<Rightarrow> string option" where
  "after_bar s = (case dropWhile (\<lambda>c. c \<noteq> CHR ''|'') s of [] \<Rightarrow> None | c # r \<Rightarrow> Some r)"

definition coverage_tail :: "string \<Rightarrow> char option" where
  "coverage_tail s =
     (case after_bar s of None \<Rightarrow> None | Some s1 \<Rightarrow>
     (case after_bar s1 of None \<Rightarrow> None | Some s2 \<Rightarrow>
     (case after_bar s2 of None \<Rightarrow> None | Some s3 \<Rightarrow>
     (case after_bar s3 of None \<Rightarrow> None | Some s4 \<Rightarrow>
     (case filter is_digit (takeWhile (\<lambda>c. c \<noteq> CHR ''|'') s4) of
        [] \<Rightarrow> None
      | d # ds \<Rightarrow> Some (last (d # ds)))))))"

fun coverage_match :: "string \<Rightarrow> char option" where
  "coverage_match [] = None"
| "coverage_match (c # s) =
     (if starts_with (c # s) ''All files''
      then (case coverage_tail (drop 9 (c # s)) of
              Some d \<Rightarrow> Some d
            | None \<Rightarrow> coverage_match s)
      else coverage_match s)"




text \<open>
  Step 4.  \<open>coverage\<close> is \<open>parseFloat\<close> of the matched group, which is a single digit;
  the comparison with 80 and the two results are kept as the source has them.
\<close>

definition runCoverageReport :: "startup_options \<Rightarrow> startup_env \<Rightarrow> string + report" where
  "runCoverageReport opts env =
     (if skipTests opts \<or> quick opts \<or> production opts then Inr (Skip ''Coverage skipped'')
      else
        (case npm_coverage env of
           Exec_ok out err \<Rightarrow>
             (case coverage_match out of
                Some d \<Rightarrow>
                  (let coverage = digit_value d in
                   if coverage < 80
                   then Inr (Warn (''Coverage: '' @ show_nat coverage
                                   @ ''% (below 80% threshold)''))
                   else Inr (Pass (''Coverage: '' @ show_nat coverage @ ''%'')))
              | None \<Rightarrow> Inr (Pass ''Coverage report generated''))
         | Exec_error m \<Rightarrow> Inl (''Coverage failed: '' @ m)
         | Exec_timeout m \<Rightarrow> Inl (''Coverage failed: '' @ m)))"



















section \<open>Properties of the port manager\<close>

lemma testPort_valid:
  "0 \<le> p \<Longrightarrow> p \<le> 65535 \<Longrightarrow> testPort ex bound p = Inr (p \<notin> ex \<and> p \<notin> bound)"
  by (simp add: testPort_def listen_def)

lemma searchPorts_found:
  "0 \<le> p \<Longrightarrow> q \<le> 65535 \<Longrightarrow> p \<le> q \<Longrightarrow> q \<le> hi \<Longrightarrow> q \<notin> ex \<Longrightarrow> q \<notin> bound \<Longrightarrow>
   \<forall>r. p \<le> r \<and> r < q \<longrightarrow> r \<in> ex \<or> r \<in> bound \<Longrightarrow>
   searchPorts ex bound hi p = Inr (Some q)"
proof (induction ex bound hi p rule: searchPorts.induct)
  case (1 ex bound hi p)
  have t: "testPort ex bound p = Inr (p \<notin> ex \<and> p \<notin> bound)"
    using "1.prems" by (intro testPort_valid) auto
  show ?case
  proof (cases "p = q")
    case True
    with t "1.prems" show ?thesis by (subst searchPorts.simps) simp
  next
    case False
    with "1.prems" have lt: "p < q" by simp
    with "1.prems" have blocked: "p \<in> ex \<or> p \<in> bound" by blast
    have "searchPorts ex bound hi (p + 1) = Inr (Some q)"
    proof (rule "1.IH"[of "False"])
      show "p \<le> hi" using lt "1.prems" by simp
      show "testPort ex bound p = Inr False" using t blocked by auto
      show "\<not> False" by simp
      show "0 \<le> p + 1" using "1.prems" by simp
      show "q \<le> 65535" by fact
      show "p + 1 \<le> q" using lt by simp
      show "q \<le> hi" by fact
      show "q \<notin> ex" by fact
      show "q \<notin> bound" by fact
      show "\<forall>r. p + 1 \<le> r \<and> r < q \<longrightarrow> r \<in> ex \<or> r \<in> bound"
        using "1.prems" by auto
    qed
    moreover have "p \<le> hi" using lt "1.prems" by simp
    ultimately show ?thesis using t blocked by (subst searchPorts.simps) auto
  qed
qed

lemma searchPorts_none:
  "0 \<le> p \<Longrightarrow> hi \<le> 65535 \<Longrightarrow> \<forall>r. p \<le> r \<and> r \<le> hi \<longrightarrow> r \<in> ex \<or> r \<in> bound \<Longrightarrow>
   searchPorts ex bound hi p = Inr None"
proof (induction ex bound hi p rule: searchPorts.induct)
  case (1 ex bound hi p)
  show ?case
  proof (cases "p \<le> hi")
    case False
    then show ?thesis by (subst searchPorts.simps) simp
  next
    case True
    have t: "testPort ex bound p = Inr (p \<notin> ex \<and> p \<notin> bound)"
      using "1.prems" True by (intro testPort_valid) auto
    have blocked: "p \<in> ex \<or> p \<in> bound" using "1.prems" True by blast
    have "searchPorts ex bound hi (p + 1) = Inr None"
    proof (rule "1.IH"[of "False"])
      show "p \<le> hi" by fact
      show "testPort ex bound p = Inr False" using t blocked by auto
      show "\<not> False" by simp
      show "0 \<le> p + 1" using "1.prems" by simp
      show "hi \<le> 65535" by fact
      show "\<forall>r. p + 1 \<le> r \<and> r \<le> hi \<longrightarrow> r \<in> ex \<or> r \<in> bound"
        using "1.prems" by auto
    qed
    then show ?thesis using t blocked True by (subst searchPorts.simps) auto
  qed
qed

lemma testPort_True:
  "testPort ex bound p = Inr True \<Longrightarrow> p \<notin> ex \<and> p \<notin> bound"
  by (auto simp: testPort_def listen_def split: if_splits listen_outcome.splits)

lemma searchPorts_sound:
  "searchPorts ex bound hi p = Inr (Some q) \<Longrightarrow>
   p \<le> q \<and> q \<le> hi \<and> q \<notin> ex \<and> q \<notin> bound"
proof (induction ex bound hi p rule: searchPorts.induct)
  case (1 ex bound hi p)
  note unfold = searchPorts.simps[of ex bound hi p]
  from "1.prems" have le: "p \<le> hi"
    by (subst (asm) unfold) (simp split: if_splits)
  show ?case
  proof (cases "testPort ex bound p")
    case (Inl e)
    with "1.prems" le show ?thesis by (subst (asm) unfold) simp
  next
    case (Inr ok)
    show ?thesis
    proof (cases ok)
      case True
      with Inr "1.prems" le have "q = p" by (subst (asm) unfold) simp
      with Inr True le testPort_True[of ex bound p] show ?thesis by simp
    next
      case False
      with Inr "1.prems" le have "searchPorts ex bound hi (p + 1) = Inr (Some q)"
        by (subst (asm) unfold) simp
      from "1.IH"[OF le Inr _ this] False show ?thesis by simp
    qed
  qed
qed

lemma findAvailablePort_sound:
  assumes "fst (findAvailablePort bound pm P opts) = Inr r"
  shows "port_free bound pm opts (port r) \<and> P \<le> port r
       \<and> (port r = P \<or> port r \<le> snd (portRange opts))"
proof (cases "testPort (reservedPorts pm \<union> set (avoid opts)) bound P")
  case (Inl e)
  with assms show ?thesis by (simp add: findAvailablePort_def)
next
  case (Inr ok)
  show ?thesis
  proof (cases ok)
    case True
    with Inr assms have "port r = P"
      by (auto simp: findAvailablePort_def)
    with Inr True testPort_True[of "reservedPorts pm \<union> set (avoid opts)" bound P]
    show ?thesis by (simp add: port_free_def)
  next
    case False
    with Inr assms obtain q where
      q: "searchPorts (reservedPorts pm \<union> set (avoid opts)) bound (snd (portRange opts)) (P + 1)
            = Inr (Some q)" and r: "port r = q"
      by (auto simp: findAvailablePort_def split: sum.splits option.splits)
    from searchPorts_sound[OF q] r show ?thesis by (simp add: port_free_def)
  qed
qed

lemma findAvailablePort_throws:
  assumes "\<forall>r. P \<le> r \<and> (r = P \<or> r \<le> snd (portRange opts)) \<longrightarrow> \<not> port_free bound pm opts r"
  shows "\<exists>e. fst (findAvailablePort bound pm P opts) = Inl e"
proof (cases "fst (findAvailablePort bound pm P opts)")
  case (Inl e)
  then show ?thesis by blast
next
  case (Inr r)
  from findAvailablePort_sound[OF Inr] assms show ?thesis by blast
qed

lemma findAvailablePort_preferred:
  assumes "0 \<le> P" "P \<le> 65535" "port_free bound pm opts P"
  shows "fst (findAvailablePort bound pm P opts)
           = Inr \<lparr>port = P, isPreferred = True, message = Using_preferred P\<rparr>"
  using assms
  by (simp add: findAvailablePort_def testPort_valid port_free_def)

lemma findAvailablePort_fallback:
  assumes "0 \<le> P" "q \<le> 65535" "\<not> port_free bound pm opts P"
    and "P < q" "q \<le> snd (portRange opts)" "port_free bound pm opts q"
    and "\<forall>r. P < r \<and> r < q \<longrightarrow> \<not> port_free bound pm opts r"
  shows "fst (findAvailablePort bound pm P opts)
           = Inr \<lparr>port = q, isPreferred = False, message = Unavailable_using P q\<rparr>"
proof -
  let ?ex = "reservedPorts pm \<union> set (avoid opts)"
  have "P \<le> 65535" using assms by simp
  with assms have t: "testPort ?ex bound P = Inr False"
    by (simp add: testPort_valid port_free_def)
  have "searchPorts ?ex bound (snd (portRange opts)) (P + 1) = Inr (Some q)"
    using assms by (intro searchPorts_found) (auto simp: port_free_def)
  with t show ?thesis by (simp add: findAvailablePort_def)
qed

lemma findAvailablePort_exhausted:
  assumes "0 \<le> P" "P \<le> 65535" "snd (portRange opts) \<le> 65535"
    and "\<forall>r. P \<le> r \<and> (r = P \<or> r \<le> snd (portRange opts)) \<longrightarrow> \<not> port_free bound pm opts r"
  shows "fst (findAvailablePort bound pm P opts)
           = Inl (NoPortAvailable P (snd (portRange opts)))"
proof -
  let ?ex = "reservedPorts pm \<union> set (avoid opts)"
  from assms have "\<not> port_free bound pm opts P" by blast
  with assms have t: "testPort ?ex bound P = Inr False"
    by (simp add: testPort_valid port_free_def)
  have "searchPorts ?ex bound (snd (portRange opts)) (P + 1) = Inr None"
    using assms by (intro searchPorts_none) (auto simp: port_free_def)
  with t show ?thesis by (simp add: findAvailablePort_def)
qed

lemma findAvailablePort_state:
  "snd (findAvailablePort bound pm P opts) =
     (case fst (findAvailablePort bound pm P opts) of
        Inl e \<Rightarrow> pm
      | Inr r \<Rightarrow> reserve_if (reservePort opts) (port r) pm)"
  by (simp add: findAvailablePort_def Let_def
           split: sum.splits bool.splits option.splits)


text \<open>
  C3.  For a preferred port \<open>P\<close> that is a TCP port number, \<open>findAvailablePort\<close> first
  tests \<open>P\<close> and returns it with \<open>isPreferred = true\<close> when it is free (not excluded,
  not bound).  Otherwise it tests \<open>P + 1, P + 2, \<dots>\<close> up to \<open>portRange[1]\<close> in this
  order and returns the first free one with \<open>isPreferred = false\<close>; when no port of
  that span is free it throws (the error \<open>Cannot find available port in range\<close> when
  the span lies within the TCP port numbers).  With the ports 3000 to 3002 bound,
  \<open>findAvailablePort(3000, {portRange: [3000, 3005]})\<close> on a fresh manager returns port
  3003 with \<open>isPreferred = false\<close>.
\<close>

theorem findAvailablePort_sequential_search:
  assumes "0 \<le> P" and "P \<le> 65535"
  shows
    "(port_free bound pm opts P \<longrightarrow>
        fst (findAvailablePort bound pm P opts)
          = Inr \<lparr>port = P, isPreferred = True, message = Using_preferred P\<rparr>)
     \<and> (\<not> port_free bound pm opts P \<and> P < q \<and> q \<le> snd (portRange opts) \<and> q \<le> 65535
          \<and> port_free bound pm opts q
          \<and> (\<forall>r. P < r \<and> r < q \<longrightarrow> \<not> port_free bound pm opts r) \<longrightarrow>
        fst (findAvailablePort bound pm P opts)
          = Inr \<lparr>port = q, isPreferred = False, message = Unavailable_using P q\<rparr>)
     \<and> ((\<forall>r. P \<le> r \<and> (r = P \<or> r \<le> snd (portRange opts))
              \<longrightarrow> \<not> port_free bound pm opts r) \<longrightarrow>
        (\<exists>e. fst (findAvailablePort bound pm P opts) = Inl e)
        \<and> (snd (portRange opts) \<le> 65535 \<longrightarrow>
             fst (findAvailablePort bound pm P opts)
               = Inl (NoPortAvailable P (snd (portRange opts)))))
     \<and> fst (findAvailablePort {3000, 3001, 3002} \<lparr>reservedPorts = {}\<rparr> 3000
              \<lparr>portRange = (3000, 3005), reservePort = True, avoid = []\<rparr>)
          = Inr \<lparr>port = 3003, isPreferred = False, message = Unavailable_using 3000 3003\<rparr>"
proof (intro conjI impI)
  assume "port_free bound pm opts P"
  with assms show "fst (findAvailablePort bound pm P opts)
      = Inr \<lparr>port = P, isPreferred = True, message = Using_preferred P\<rparr>"
    by (intro findAvailablePort_preferred)
next
  assume a: "\<not> port_free bound pm opts P \<and> P < q \<and> q \<le> snd (portRange opts) \<and> q \<le> 65535
          \<and> port_free bound pm opts q
          \<and> (\<forall>r. P < r \<and> r < q \<longrightarrow> \<not> port_free bound pm opts r)"
  show "fst (findAvailablePort bound pm P opts)
      = Inr \<lparr>port = q, isPreferred = False, message = Unavailable_using P q\<rparr>"
    using assms(1) a by (intro findAvailablePort_fallback) simp_all
next
  assume "\<forall>r. P \<le> r \<and> (r = P \<or> r \<le> snd (portRange opts))
              \<longrightarrow> \<not> port_free bound pm opts r"
  then show "\<exists>e. fst (findAvailablePort bound pm P opts) = Inl e"
    by (rule findAvailablePort_throws)
next
  assume "\<forall>r. P \<le> r \<and> (r = P \<or> r \<le> snd (portRange opts))
              \<longrightarrow> \<not> port_free bound pm opts r"
    and "snd (portRange opts) \<le> 65535"
  with assms show "fst (findAvailablePort bound pm P opts)
      = Inl (NoPortAvailable P (snd (portRange opts)))"
    by (intro findAvailablePort_exhausted)
next
  show "fst (findAvailablePort {3000, 3001, 3002} \<lparr>reservedPorts = {}\<rparr> 3000
              \<lparr>portRange = (3000, 3005), reservePort = True, avoid = []\<rparr>)
          = Inr \<lparr>port = 3003, isPreferred = False, message = Unavailable_using 3000 3003\<rparr>"
    by (simp add: findAvailablePort_def testPort_def listen_def searchPorts.simps)
qed

theorem findAvailablePort_sequential_search_witness:
  "fst (findAvailablePort {8080} \<lparr>reservedPorts = {8081}\<rparr> 8080
         \<lparr>portRange = (3000, 8085), reservePort = True, avoid = [8082]\<rparr>)
     = Inr \<lparr>port = 8083, isPreferred = False, message = Unavailable_using 8080 8083\<rparr>
   \<and> fst (findAvailablePort {8080} \<lparr>reservedPorts = {8081}\<rparr> 8084
         \<lparr>portRange = (3000, 8085), reservePort = True, avoid = [8082]\<rparr>)
     = Inr \<lparr>port = 8084, isPreferred = True, message = Using_preferred 8084\<rparr>
   \<and> fst (findAvailablePort {8080} \<lparr>reservedPorts = {8081}\<rparr> 8080
         \<lparr>portRange = (3000, 8082), reservePort = True, avoid = [8082]\<rparr>)
     = Inl (NoPortAvailable 8080 8082)"
proof -
  let ?pm = "\<lparr>reservedPorts = {8081}\<rparr>"
  let ?o = "\<lparr>portRange = (3000, 8085), reservePort = True, avoid = [8082]\<rparr>"
  let ?o' = "\<lparr>portRange = (3000, 8082), reservePort = True, avoid = [8082]\<rparr>"
  have blocked: "\<forall>r::int. 8080 < r \<and> r < 8083 \<longrightarrow> \<not> port_free {8080} ?pm ?o r"
    by (auto simp: port_free_def)
  have none: "\<forall>r::int. 8080 \<le> r \<and> (r = 8080 \<or> r \<le> snd (portRange ?o'))
                \<longrightarrow> \<not> port_free {8080} ?pm ?o' r"
    by (auto simp: port_free_def)
  have "fst (findAvailablePort {8080} ?pm 8080 ?o)
          = Inr \<lparr>port = 8083, isPreferred = False, message = Unavailable_using 8080 8083\<rparr>"
    using findAvailablePort_sequential_search[of 8080 "{8080}" ?pm ?o 8083] blocked
    by (simp add: port_free_def)
  moreover have "fst (findAvailablePort {8080} ?pm 8084 ?o)
          = Inr \<lparr>port = 8084, isPreferred = True, message = Using_preferred 8084\<rparr>"
    using findAvailablePort_sequential_search[of 8084 "{8080}" ?pm ?o 0]
    by (simp add: port_free_def)
  moreover have "fst (findAvailablePort {8080} ?pm 8080 ?o') = Inl (NoPortAvailable 8080 8082)"
    using findAvailablePort_sequential_search[of 8080 "{8080}" ?pm ?o' 0] none
    by simp
  ultimately show ?thesis by blast
qed

text \<open>
  C4 as stated fails: with the default \<open>reservePort = true\<close> a successful call adds the
  returned port to \<open>reservedPorts\<close>, so on a fresh manager with no port bound the first
  \<open>findAvailablePort(3000)\<close> returns 3000 and changes the state, and the second
  returns 3001.
\<close>

theorem findAvailablePort_not_idempotent:
  "snd (findAvailablePort {} \<lparr>reservedPorts = {}\<rparr> 3000 default_options)
     \<noteq> \<lparr>reservedPorts = {}\<rparr>
   \<and> fst (findAvailablePort {} \<lparr>reservedPorts = {}\<rparr> 3000 default_options)
     = Inr \<lparr>port = 3000, isPreferred = True, message = Using_preferred 3000\<rparr>
   \<and> fst (findAvailablePort {}
            (snd (findAvailablePort {} \<lparr>reservedPorts = {}\<rparr> 3000 default_options))
            3000 default_options)
     = Inr \<lparr>port = 3001, isPreferred = False, message = Unavailable_using 3000 3001\<rparr>"
  by (simp add: findAvailablePort_def testPort_def listen_def searchPorts.simps
        default_options_def reserve_if_def)

text \<open>
  C4 amended.  A call with \<open>reservePort: false\<close>, and every call that throws, leaves
  \<open>reservedPorts\<close> unchanged, so (the bound ports being the same) repeating it gives the
  same result.  A successful call with \<open>reservePort\<close> true (the default) adds exactly
  the returned port to \<open>reservedPorts\<close>, and a repeated call on the new state does not
  return that port again.  \<open>reservePort(p)\<close> has set semantics: reserving a port that is
  already reserved leaves the set unchanged.
\<close>

theorem findAvailablePort_reservation_effect:
  "(\<not> reservePort opts \<longrightarrow> snd (findAvailablePort bound pm P opts) = pm)
   \<and> (\<forall>e. fst (findAvailablePort bound pm P opts) = Inl e \<longrightarrow>
          snd (findAvailablePort bound pm P opts) = pm)
   \<and> (\<forall>r. reservePort opts \<and> fst (findAvailablePort bound pm P opts) = Inr r \<longrightarrow>
          snd (findAvailablePort bound pm P opts) = reservePort_op pm (port r)
          \<and> (\<forall>r'. fst (findAvailablePort bound (snd (findAvailablePort bound pm P opts)) P opts)
                     = Inr r' \<longrightarrow> port r' \<noteq> port r))
   \<and> reservePort_op (reservePort_op pm p) p = reservePort_op pm p
   \<and> (p \<in> reservedPorts pm \<longrightarrow> reservePort_op pm p = pm)"
proof (intro conjI allI impI)
  show "snd (findAvailablePort bound pm P opts) = pm" if "\<not> reservePort opts"
    using that by (simp add: findAvailablePort_state reserve_if_def split: sum.splits)
next
  fix e assume "fst (findAvailablePort bound pm P opts) = Inl e"
  then show "snd (findAvailablePort bound pm P opts) = pm"
    by (simp add: findAvailablePort_state)
next
  fix r assume a: "reservePort opts \<and> fst (findAvailablePort bound pm P opts) = Inr r"
  then show st: "snd (findAvailablePort bound pm P opts) = reservePort_op pm (port r)"
    by (simp add: findAvailablePort_state reserve_if_def reservePort_op_def)
  fix r'
  assume "fst (findAvailablePort bound (snd (findAvailablePort bound pm P opts)) P opts) = Inr r'"
  from findAvailablePort_sound[OF this]
  have "port r' \<notin> reservedPorts (reservePort_op pm (port r))"
    by (simp add: port_free_def st)
  then show "port r' \<noteq> port r" by (auto simp: reservePort_op_def)
next
  show "reservePort_op (reservePort_op pm p) p = reservePort_op pm p"
    by (simp add: reservePort_op_def)
next
  show "reservePort_op pm p = pm" if "p \<in> reservedPorts pm"
    using that by (simp add: reservePort_op_def insert_absorb)
qed

theorem findAvailablePort_reservation_effect_witness:
  "snd (findAvailablePort {3000} \<lparr>reservedPorts = {3001}\<rparr> 3000
          (default_options\<lparr>reservePort := False\<rparr>)) = \<lparr>reservedPorts = {3001}\<rparr>
   \<and> snd (findAvailablePort {9999} \<lparr>reservedPorts = {3001}\<rparr> 9999 default_options)
       = \<lparr>reservedPorts = {3001}\<rparr>
   \<and> snd (findAvailablePort {3000} \<lparr>reservedPorts = {3001}\<rparr> 3000 default_options)
       = \<lparr>reservedPorts = {3002, 3001}\<rparr>
   \<and> reservePort_op \<lparr>reservedPorts = {3001}\<rparr> 3001 = \<lparr>reservedPorts = {3001}\<rparr>"
proof -
  let ?pm = "\<lparr>reservedPorts = {3001::int}\<rparr>"
  have r1: "fst (findAvailablePort {9999} ?pm 9999 default_options)
              = Inl (NoPortAvailable 9999 9999)"
    by (simp add: findAvailablePort_def testPort_def listen_def searchPorts.simps
          default_options_def)
  have r2: "fst (findAvailablePort {3000} ?pm 3000 default_options)
              = Inr \<lparr>port = 3002, isPreferred = False, message = Unavailable_using 3000 3002\<rparr>"
    by (simp add: findAvailablePort_def testPort_def listen_def searchPorts.simps
          default_options_def)
  have "snd (findAvailablePort {3000} ?pm 3000 (default_options\<lparr>reservePort := False\<rparr>)) = ?pm"
    using findAvailablePort_reservation_effect
            [of "default_options\<lparr>reservePort := False\<rparr>" "{3000}" ?pm 3000 0]
    by simp
  moreover have "snd (findAvailablePort {9999} ?pm 9999 default_options) = ?pm"
    using findAvailablePort_reservation_effect[of default_options "{9999}" ?pm 9999 0] r1
    by simp
  moreover have "snd (findAvailablePort {3000} ?pm 3000 default_options)
                   = \<lparr>reservedPorts = {3002, 3001}\<rparr>"
    using findAvailablePort_reservation_effect[of default_options "{3000}" ?pm 3000 0] r2
    by (simp add: default_options_def reservePort_op_def)
  moreover have "reservePort_op ?pm 3001 = ?pm"
    using findAvailablePort_reservation_effect[of default_options "{}" ?pm 3000 3001]
    by simp
  ultimately show ?thesis by blast
qed

text \<open>
  C5 as stated fails: the search stops at \<open>portRange[1]\<close>.  With the default range
  \<open>[3000, 9999]\<close> and port 9999 bound, \<open>findAvailablePort(9999)\<close> throws although
  port 10000 is the first port at or above 9999 that is neither bound, reserved nor
  avoided.
\<close>

theorem findAvailablePort_stops_at_range_end:
  "fst (findAvailablePort {9999} \<lparr>reservedPorts = {}\<rparr> 9999 default_options)
     = Inl (NoPortAvailable 9999 9999)
   \<and> port_free {9999} \<lparr>reservedPorts = {}\<rparr> default_options 10000
   \<and> \<not> port_free {9999} \<lparr>reservedPorts = {}\<rparr> default_options 9999"
  by (simp add: findAvailablePort_def testPort_def listen_def searchPorts.simps
        default_options_def port_free_def)

text \<open>
  C5 amended.  In every state, a port returned by \<open>findAvailablePort\<close> is not in
  \<open>reservedPorts\<close> (nor avoided, nor bound) and is at least the preferred port.  When
  the preferred port \<open>P\<close> is bound, the call returns the first port above \<open>P\<close> that is
  neither bound nor reserved nor avoided, provided that port is at most \<open>portRange[1]\<close>
  (and a TCP port number); when there is no such port up to \<open>portRange[1]\<close>, it throws.
\<close>

theorem findAvailablePort_never_reserved:
  "(\<forall>r. fst (findAvailablePort bound pm P opts) = Inr r \<longrightarrow>
        port r \<notin> reservedPorts pm \<and> port_free bound pm opts (port r) \<and> P \<le> port r)
   \<and> (P \<in> bound \<longrightarrow>
        (\<forall>q. 0 \<le> P \<and> P < q \<and> q \<le> snd (portRange opts) \<and> q \<le> 65535
              \<and> port_free bound pm opts q
              \<and> (\<forall>r. P \<le> r \<and> r < q \<longrightarrow> \<not> port_free bound pm opts r) \<longrightarrow>
           (\<exists>res. fst (findAvailablePort bound pm P opts) = Inr res
                  \<and> port res = q \<and> \<not> isPreferred res))
        \<and> ((\<forall>r. P \<le> r \<and> r \<le> snd (portRange opts) \<longrightarrow> \<not> port_free bound pm opts r) \<longrightarrow>
           (\<exists>e. fst (findAvailablePort bound pm P opts) = Inl e)))"
proof (intro conjI allI impI)
  fix r assume r: "fst (findAvailablePort bound pm P opts) = Inr r"
  from findAvailablePort_sound[OF r]
  show "port r \<notin> reservedPorts pm" "port_free bound pm opts (port r)" "P \<le> port r"
    by (simp_all add: port_free_def)
next
  fix q
  assume a: "P \<in> bound"
    and b: "0 \<le> P \<and> P < q \<and> q \<le> snd (portRange opts) \<and> q \<le> 65535
              \<and> port_free bound pm opts q
              \<and> (\<forall>r. P \<le> r \<and> r < q \<longrightarrow> \<not> port_free bound pm opts r)"
  from a have nf: "\<not> port_free bound pm opts P" by (simp add: port_free_def)
  have "fst (findAvailablePort bound pm P opts)
          = Inr \<lparr>port = q, isPreferred = False, message = Unavailable_using P q\<rparr>"
    using b nf by (intro findAvailablePort_fallback) simp_all
  then show "\<exists>res. fst (findAvailablePort bound pm P opts) = Inr res
                  \<and> port res = q \<and> \<not> isPreferred res"
    by simp
next
  assume a: "P \<in> bound"
    and b: "\<forall>r. P \<le> r \<and> r \<le> snd (portRange opts) \<longrightarrow> \<not> port_free bound pm opts r"
  from a have nf: "\<not> port_free bound pm opts P" by (simp add: port_free_def)
  show "\<exists>e. fst (findAvailablePort bound pm P opts) = Inl e"
    using b nf by (intro findAvailablePort_throws) auto
qed

theorem findAvailablePort_never_reserved_witness:
  "fst (findAvailablePort {3000} \<lparr>reservedPorts = {3001}\<rparr> 3000 default_options)
     = Inr \<lparr>port = 3002, isPreferred = False, message = Unavailable_using 3000 3002\<rparr>
   \<and> (3002::int) \<notin> {3001}
   \<and> (\<exists>e. fst (findAvailablePort {3000} \<lparr>reservedPorts = {3001}\<rparr> 3000
                \<lparr>portRange = (3000, 3001), reservePort = True, avoid = []\<rparr>) = Inl e)"
proof -
  let ?pm = "\<lparr>reservedPorts = {3001::int}\<rparr>"
  let ?o' = "\<lparr>portRange = (3000, 3001), reservePort = True, avoid = []\<rparr>"
  have blocked: "\<forall>r::int. 3000 \<le> r \<and> r < 3002 \<longrightarrow> \<not> port_free {3000} ?pm default_options r"
    by (auto simp: port_free_def)
  have none: "\<forall>r::int. 3000 \<le> r \<and> r \<le> snd (portRange ?o') \<longrightarrow> \<not> port_free {3000} ?pm ?o' r"
    by (auto simp: port_free_def)
  have pre: "(3000::int) \<in> {3000}"
    by simp
  have first: "(0::int) \<le> 3000 \<and> (3000::int) < 3002 \<and> 3002 \<le> snd (portRange default_options)
        \<and> (3002::int) \<le> 65535
        \<and> port_free {3000} ?pm default_options 3002
        \<and> (\<forall>r. 3000 \<le> r \<and> r < 3002 \<longrightarrow> \<not> port_free {3000} ?pm default_options r)"
    using blocked by (simp add: default_options_def port_free_def)
  from findAvailablePort_never_reserved[of "{3000}" ?pm 3000 default_options,
         THEN conjunct2, THEN mp, OF pre, THEN conjunct1, THEN spec, THEN mp, OF first]
  obtain res where res: "fst (findAvailablePort {3000} ?pm 3000 default_options) = Inr res"
      "port res = 3002" "\<not> isPreferred res"
    by blast
  have "res = \<lparr>port = 3002, isPreferred = False, message = Unavailable_using 3000 3002\<rparr>"
    using res
    by (auto simp: findAvailablePort_def testPort_def listen_def searchPorts.simps
          default_options_def)
  moreover have "port res \<notin> reservedPorts ?pm"
    using findAvailablePort_never_reserved[of "{3000}" ?pm 3000 default_options] res(1)
    by blast
  moreover have "\<exists>e. fst (findAvailablePort {3000} ?pm 3000 ?o') = Inl e"
    using findAvailablePort_never_reserved[of "{3000}" ?pm 3000 ?o'] none
    by simp
  ultimately show ?thesis using res by simp
qed


section \<open>Properties of the health checker\<close>

lemma errors_set_api [simp]: "errors (set_api k v h) = errors h"
  by (simp add: set_api_def)

lemma errors_push_warning [simp]: "errors (push_warning w h) = errors h"
  by (simp add: push_warning_def)

lemma errors_push_error [simp]: "errors (push_error e h) = errors h @ [e]"
  by (simp add: push_error_def)

lemma errors_complete_probe:
  "errors (complete_probe env p h) =
     errors h @ (case probe_rejection env p of None \<Rightarrow> [] | Some m \<Rightarrow> [probe_label p @ m])"
  by (cases p) (simp_all add: rejection_def Let_def split: outcome.splits)

lemma errors_run_probes:
  "errors (run_probes env s h) =
     errors h @ concat (map (\<lambda>p. case probe_rejection env p of
                                  None \<Rightarrow> [] | Some m \<Rightarrow> [probe_label p @ m]) s)"
  unfolding run_probes_def
  by (induction s arbitrary: h) (simp_all add: errors_complete_probe)

lemma errors_checkSystemPerformance:
  "checkSystemPerformance env h = Inr h' \<Longrightarrow> errors h' = errors h"
  by (auto simp: checkSystemPerformance_def Let_def split: option.splits if_splits)

lemma generateHealthReport_errors:
  assumes "generateHealthReport env s h0 = Inr h"
  shows "errors h = errors (run_probes env s h0)"
proof -
  from assms obtain h1 where
    h1: "checkSystemPerformance env (run_probes env s h0) = Inr h1"
    and "errors h = errors h1"
    by (auto simp: generateHealthReport_def split: sum.splits)
  with errors_checkSystemPerformance[OF h1] show ?thesis by simp
qed

lemma generateHealthReport_status:
  assumes "generateHealthReport env s h0 = Inr h"
  shows "status h = overall_status h"
  using assms
  by (auto simp: generateHealthReport_def overall_status_def split: sum.splits)

lemma probe_label_inj: "probe_label p @ m = probe_label q @ m' \<Longrightarrow> p = q"
  by (cases p; cases q) simp_all

lemma valid_schedule_length: "valid_schedule s \<Longrightarrow> length s = 5"
proof -
  assume v: "valid_schedule s"
  then have d: "distinct s" and eq: "set s = set all_probes"
    by (simp_all add: valid_schedule_def)
  have "length s = card (set s)"
    using d by (rule distinct_card[symmetric])
  also have "\<dots> = card (set all_probes)" by (simp only: eq)
  also have "\<dots> = 5" by (simp add: all_probes_def)
  finally show ?thesis .
qed

text \<open>
  C6 as stated fails: the health checker sends five probes, not four, because
  \<open>checkRapidAPIHealth\<close> probes two APIs and records one error entry for each.  With
  every request failing with \<open>Network Error\<close> the errors list of the report has five
  entries.
\<close>

theorem generateHealthReport_five_errors:
  "generateHealthReport
     \<lparr>openai_models = Rejected ''Network Error'', instagram_get = Rejected ''Network Error'',
      tiktok_get = Rejected ''Network Error'', apify_get = Rejected ''Network Error'',
      airtable_get = Rejected ''Network Error'', heapUsedMB = 40, diskUsedPercent = Some 50,
      diskUsedText = ''50%'', performance_throws = None, save_throws = None,
      print_throws = None\<rparr>
     [P_openai, P_instagram, P_tiktok, P_apify, P_airtable] new_healthData
   = Inr \<lparr>status = Unhealthy,
          apis = [(''openai'', Single (Api_unhealthy ''Network Error'')),
                  (''rapidapi'', Group [(''instagram_scraper'', Api_unhealthy ''Network Error''),
                                       (''tiktok_api'', Api_unhealthy ''Network Error'')]),
                  (''apify'', Single (Api_unhealthy ''Network Error'')),
                  (''airtable'', Single (Api_unhealthy ''Network Error''))],
          warnings = [],
          errors = [''OpenAI API: Network Error'', ''Instagram Scraper: Network Error'',
                    ''TikTok API: Network Error'', ''Apify API: Network Error'',
                    ''AirTable API: Network Error'']\<rparr>"
  by (simp add: generateHealthReport_def run_probes_def checkSystemPerformance_def
        new_healthData_def set_api_def push_error_def rapid_state_def)

text \<open>
  C6 amended.  When every probe of the health checker fails with a network error, the
  report of a fresh checker has overall status \<open>unhealthy\<close> and its errors list holds
  five distinct entries: one each for OpenAI, Apify and AirTable and two for RapidAPI
  (Instagram Scraper and TikTok API), whatever the order in which the responses arrive.
  For every report, the status is \<open>unhealthy\<close> exactly when the errors list is
  non-empty, \<open>degraded\<close> exactly when there are warnings but no errors, and \<open>healthy\<close>
  exactly when there are neither.
\<close>

theorem generateHealthReport_status_aggregation:
  "(valid_schedule s \<and> performance_throws env = None
      \<and> openai_models env = Rejected m1 \<and> instagram_get env = Rejected m2
      \<and> tiktok_get env = Rejected m3 \<and> apify_get env = Rejected m4
      \<and> airtable_get env = Rejected m5 \<longrightarrow>
      (\<exists>h. generateHealthReport env s new_healthData = Inr h
           \<and> status h = Unhealthy
           \<and> length (errors h) = 5 \<and> distinct (errors h)
           \<and> set (errors h) = {''OpenAI API: '' @ m1, ''Instagram Scraper: '' @ m2,
                                ''TikTok API: '' @ m3, ''Apify API: '' @ m4,
                                ''AirTable API: '' @ m5}))
   \<and> (\<forall>h. generateHealthReport env s h0 = Inr h \<longrightarrow>
          (status h = Unhealthy \<longleftrightarrow> errors h \<noteq> [])
          \<and> (status h = Degraded \<longleftrightarrow> errors h = [] \<and> warnings h \<noteq> [])
          \<and> (status h = Healthy \<longleftrightarrow> errors h = [] \<and> warnings h = []))"
proof (intro conjI allI impI)
  assume a: "valid_schedule s \<and> performance_throws env = None
      \<and> openai_models env = Rejected m1 \<and> instagram_get env = Rejected m2
      \<and> tiktok_get env = Rejected m3 \<and> apify_get env = Rejected m4
      \<and> airtable_get env = Rejected m5"
  define entry where "entry p = probe_label p @ the (probe_rejection env p)" for p
  have rej: "\<exists>m. probe_rejection env p = Some m" for p
    using a by (cases p) (simp_all add: rejection_def)
  obtain h where h: "generateHealthReport env s new_healthData = Inr h"
    using a
    by (cases "generateHealthReport env s new_healthData")
       (auto simp: generateHealthReport_def checkSystemPerformance_def Let_def
             split: option.splits sum.splits)
  have "errors h = concat (map (\<lambda>p. case probe_rejection env p of
                                  None \<Rightarrow> [] | Some m \<Rightarrow> [probe_label p @ m]) s)"
    using generateHealthReport_errors[OF h]
    by (simp add: errors_run_probes new_healthData_def)
  also have "\<dots> = concat (map (\<lambda>p. [entry p]) s)"
  proof -
    have "(case probe_rejection env p of None \<Rightarrow> [] | Some m \<Rightarrow> [probe_label p @ m])
            = [entry p]" for p
      using rej[of p] by (auto simp: entry_def)
    then show ?thesis by simp
  qed
  also have "\<dots> = map entry s" by (induction s) simp_all
  finally have errs: "errors h = map entry s" .
  have inj: "inj entry"
    by (rule injI) (auto simp: entry_def dest: probe_label_inj)
  have len: "length (errors h) = 5"
    using a errs valid_schedule_length by simp
  have dist: "distinct (errors h)"
    using a errs inj by (simp add: valid_schedule_def distinct_map inj_on_subset[OF inj])
  have "set (errors h) = entry ` set all_probes"
    using a errs by (simp add: valid_schedule_def)
  also have "\<dots> = {''OpenAI API: '' @ m1, ''Instagram Scraper: '' @ m2,
                    ''TikTok API: '' @ m3, ''Apify API: '' @ m4, ''AirTable API: '' @ m5}"
    using a by (simp add: all_probes_def entry_def rejection_def)
  finally have set_eq: "set (errors h) = {''OpenAI API: '' @ m1, ''Instagram Scraper: '' @ m2,
                    ''TikTok API: '' @ m3, ''Apify API: '' @ m4, ''AirTable API: '' @ m5}" .
  have "status h = Unhealthy"
    using generateHealthReport_status[OF h] len by (auto simp: overall_status_def)
  with h len dist set_eq
  show "\<exists>h. generateHealthReport env s new_healthData = Inr h
           \<and> status h = Unhealthy
           \<and> length (errors h) = 5 \<and> distinct (errors h)
           \<and> set (errors h) = {''OpenAI API: '' @ m1, ''Instagram Scraper: '' @ m2,
                                ''TikTok API: '' @ m3, ''Apify API: '' @ m4,
                                ''AirTable API: '' @ m5}"
    by blast
next
  fix h assume h: "generateHealthReport env s h0 = Inr h"
  from generateHealthReport_status[OF h]
  show "status h = Unhealthy \<longleftrightarrow> errors h \<noteq> []"
    and "status h = Degraded \<longleftrightarrow> errors h = [] \<and> warnings h \<noteq> []"
    and "status h = Healthy \<longleftrightarrow> errors h = [] \<and> warnings h = []"
    by (auto simp: overall_status_def)
qed

theorem generateHealthReport_status_aggregation_witness:
  "(\<exists>h. generateHealthReport
          \<lparr>openai_models = Rejected ''timeout'', instagram_get = Rejected ''ENOTFOUND'',
           tiktok_get = Rejected ''ENOTFOUND'', apify_get = Rejected ''ECONNRESET'',
           airtable_get = Rejected ''timeout'', heapUsedMB = 40, diskUsedPercent = None,
           diskUsedText = [], performance_throws = None, save_throws = None,
           print_throws = None\<rparr>
          [P_apify, P_instagram, P_openai, P_airtable, P_tiktok] new_healthData = Inr h
        \<and> status h = Unhealthy \<and> length (errors h) = 5 \<and> distinct (errors h))
   \<and> (\<exists>h. generateHealthReport
          \<lparr>openai_models = Resolved [''gpt-4o''], instagram_get = Resolved (),
           tiktok_get = Resolved (), apify_get = Resolved (),
           airtable_get = Resolved (), heapUsedMB = 600, diskUsedPercent = Some 50,
           diskUsedText = ''50%'', performance_throws = None, save_throws = None,
           print_throws = None\<rparr>
          all_probes new_healthData = Inr h
        \<and> status h = Degraded \<and> errors h = [] \<and> warnings h = [''High memory usage: 600MB''])"
proof -
  let ?down = "\<lparr>openai_models = Rejected ''timeout'', instagram_get = Rejected ''ENOTFOUND'',
           tiktok_get = Rejected ''ENOTFOUND'', apify_get = Rejected ''ECONNRESET'',
           airtable_get = Rejected ''timeout'', heapUsedMB = 40, diskUsedPercent = None,
           diskUsedText = [], performance_throws = None, save_throws = None,
           print_throws = None\<rparr>"
  let ?warm = "\<lparr>openai_models = Resolved [''gpt-4o''], instagram_get = Resolved (),
           tiktok_get = Resolved (), apify_get = Resolved (),
           airtable_get = Resolved (), heapUsedMB = 600, diskUsedPercent = Some 50,
           diskUsedText = ''50%'', performance_throws = None, save_throws = None,
           print_throws = None\<rparr>"
  let ?s = "[P_apify, P_instagram, P_openai, P_airtable, P_tiktok]"
  have v: "valid_schedule ?s"
    by (simp add: valid_schedule_def all_probes_def) auto
  have first: "\<exists>h. generateHealthReport ?down ?s new_healthData = Inr h
        \<and> status h = Unhealthy \<and> length (errors h) = 5 \<and> distinct (errors h)"
    using generateHealthReport_status_aggregation
            [of ?s ?down "''timeout''" "''ENOTFOUND''" "''ENOTFOUND''" "''ECONNRESET''"
               "''timeout''" new_healthData] v
    by auto
  have n600: "show_nat 600 = ''600''"
    by code_simp
  obtain h where h: "generateHealthReport ?warm all_probes new_healthData = Inr h"
      and w: "warnings h = [''High memory usage: 600MB'']" and e: "errors h = []"
    by (simp add: generateHealthReport_def run_probes_def checkSystemPerformance_def
          new_healthData_def set_api_def push_warning_def rapid_state_def all_probes_def n600)
  have "status h = Degraded"
    using generateHealthReport_status_aggregation
            [of all_probes ?warm "[]" "[]" "[]" "[]" "[]" new_healthData] h w e
    by simp
  with h w e first show ?thesis by blast
qed

lemma run_success:
  "success (run env s h0) \<longleftrightarrow>
     (\<exists>h. generateHealthReport env s h0 = Inr h \<and> save_throws env = None
          \<and> print_throws env = None \<and> status h \<noteq> Unhealthy)"
  by (auto simp: run_def run_failed_def split: sum.splits option.splits)

text \<open>
  C10.  \<open>run()\<close> returns \<open>success: true\<close> if and only if no exception escaped the
  report generation, the saving and the printing, and the aggregated status is not
  \<open>unhealthy\<close>.  So a \<open>degraded\<close> run is a success, and the script run directly exits 0
  for \<open>healthy\<close> and for \<open>degraded\<close>, and exits 1 for \<open>unhealthy\<close> or for an internal
  failure.
\<close>

theorem run_success_iff_not_unhealthy:
  "(success (run env s h0) \<longleftrightarrow>
      (\<exists>h. generateHealthReport env s h0 = Inr h \<and> save_throws env = None
           \<and> print_throws env = None \<and> status h \<noteq> Unhealthy))
   \<and> (\<forall>h. generateHealthReport env s new_healthData = Inr h \<and> save_throws env = None
           \<and> print_throws env = None \<longrightarrow>
          (status h = Healthy \<longrightarrow>
             success (run env s new_healthData) \<and> health_check_main env s = 0)
          \<and> (status h = Degraded \<longrightarrow>
             success (run env s new_healthData) \<and> health_check_main env s = 0)
          \<and> (status h = Unhealthy \<longrightarrow>
             \<not> success (run env s new_healthData) \<and> health_check_main env s = 1))
   \<and> ((\<exists>e. generateHealthReport env s new_healthData = Inl e) \<or> save_throws env \<noteq> None
          \<or> print_throws env \<noteq> None \<longrightarrow>
        \<not> success (run env s new_healthData) \<and> health_check_main env s = 1)"
proof (intro conjI allI impI)
  show "success (run env s h0) \<longleftrightarrow>
      (\<exists>h. generateHealthReport env s h0 = Inr h \<and> save_throws env = None
           \<and> print_throws env = None \<and> status h \<noteq> Unhealthy)"
    by (rule run_success)
next
  fix h
  assume a: "generateHealthReport env s new_healthData = Inr h \<and> save_throws env = None
           \<and> print_throws env = None"
  then have r: "success (run env s new_healthData) \<longleftrightarrow> status h \<noteq> Unhealthy"
    by (simp add: run_success)
  show "success (run env s new_healthData)" if "status h = Healthy"
    using r that by simp
  show "health_check_main env s = 0" if "status h = Healthy"
    using r that by (simp add: health_check_main_def)
  show "success (run env s new_healthData)" if "status h = Degraded"
    using r that by simp
  show "health_check_main env s = 0" if "status h = Degraded"
    using r that by (simp add: health_check_main_def)
  show "\<not> success (run env s new_healthData)" if "status h = Unhealthy"
    using r that by simp
  show "health_check_main env s = 1" if "status h = Unhealthy"
    using r that by (simp add: health_check_main_def)
next
  assume a: "(\<exists>e. generateHealthReport env s new_healthData = Inl e) \<or> save_throws env \<noteq> None
          \<or> print_throws env \<noteq> None"
  then show ns: "\<not> success (run env s new_healthData)"
    by (auto simp: run_success)
  then show "health_check_main env s = 1"
    by (simp add: health_check_main_def)
qed

theorem run_success_iff_not_unhealthy_witness:
  "health_check_main
     \<lparr>openai_models = Resolved [''gpt-4o''], instagram_get = Resolved (),
      tiktok_get = Resolved (), apify_get = Resolved (),
      airtable_get = Resolved (), heapUsedMB = 600, diskUsedPercent = Some 50,
      diskUsedText = ''50%'', performance_throws = None, save_throws = None,
      print_throws = None\<rparr> all_probes = 0
   \<and> health_check_main
     \<lparr>openai_models = Resolved [''gpt-4o''], instagram_get = Resolved (),
      tiktok_get = Rejected ''timeout'', apify_get = Resolved (),
      airtable_get = Resolved (), heapUsedMB = 40, diskUsedPercent = Some 50,
      diskUsedText = ''50%'', performance_throws = None, save_throws = None,
      print_throws = None\<rparr> all_probes = 1
   \<and> health_check_main
     \<lparr>openai_models = Resolved [''gpt-4o''], instagram_get = Resolved (),
      tiktok_get = Resolved (), apify_get = Resolved (),
      airtable_get = Resolved (), heapUsedMB = 40, diskUsedPercent = Some 50,
      diskUsedText = ''50%'', performance_throws = None, save_throws = Some ''EACCES'',
      print_throws = None\<rparr> all_probes = 1"
proof -
  let ?warm = "\<lparr>openai_models = Resolved [''gpt-4o''], instagram_get = Resolved (),
      tiktok_get = Resolved (), apify_get = Resolved (),
      airtable_get = Resolved (), heapUsedMB = 600, diskUsedPercent = Some 50,
      diskUsedText = ''50%'', performance_throws = None, save_throws = None,
      print_throws = None\<rparr>"
  let ?bad = "\<lparr>openai_models = Resolved [''gpt-4o''], instagram_get = Resolved (),
      tiktok_get = Rejected ''timeout'', apify_get = Resolved (),
      airtable_get = Resolved (), heapUsedMB = 40, diskUsedPercent = Some 50,
      diskUsedText = ''50%'', performance_throws = None, save_throws = None,
      print_throws = None\<rparr>"
  let ?nosave = "\<lparr>openai_models = Resolved [''gpt-4o''], instagram_get = Resolved (),
      tiktok_get = Resolved (), apify_get = Resolved (),
      airtable_get = Resolved (), heapUsedMB = 40, diskUsedPercent = Some 50,
      diskUsedText = ''50%'', performance_throws = None, save_throws = Some ''EACCES'',
      print_throws = None\<rparr>"
  obtain h where h: "generateHealthReport ?warm all_probes new_healthData = Inr h"
      and st: "status h = Degraded"
    by (simp add: generateHealthReport_def run_probes_def checkSystemPerformance_def
          new_healthData_def set_api_def push_warning_def rapid_state_def all_probes_def)
  have "health_check_main ?warm all_probes = 0"
    using run_success_iff_not_unhealthy[of ?warm all_probes new_healthData] h st
    by simp
  moreover
  obtain h' where h': "generateHealthReport ?bad all_probes new_healthData = Inr h'"
      and st': "status h' = Unhealthy"
    by (simp add: generateHealthReport_def run_probes_def checkSystemPerformance_def
          new_healthData_def set_api_def push_error_def rapid_state_def all_probes_def)
  have "health_check_main ?bad all_probes = 1"
    using run_success_iff_not_unhealthy[of ?bad all_probes new_healthData] h' st'
    by simp
  moreover have "health_check_main ?nosave all_probes = 1"
    using run_success_iff_not_unhealthy[of ?nosave all_probes new_healthData]
    by simp
  ultimately show ?thesis by blast
qed


section \<open>Properties of the setup validator\<close>

lemma v_errors_warns [simp]: "v_errors (foldl (\<lambda>v w. warn w v) v ws) = v_errors v"
  by (induction ws arbitrary: v) (simp_all add: warn_def)

lemma v_errors_run_step:
  "\<exists>es. v_errors (run_step v step) = v_errors v @ es"
  by (cases step)
     (auto simp: run_step_def check_def Let_def split: outcome.splits vresult.splits)

lemma v_errors_foldl_run_step:
  "\<exists>es. v_errors (foldl run_step v steps) = v_errors v @ es"
proof (induction steps arbitrary: v)
  case Nil
  show ?case by simp
next
  case (Cons step steps)
  from v_errors_run_step[of v step] obtain es where
    es: "v_errors (run_step v step) = v_errors v @ es" ..
  from Cons.IH[of "run_step v step"] obtain es' where
    "v_errors (foldl run_step (run_step v step) steps) = v_errors (run_step v step) @ es'" ..
  with es show ?case by simp
qed

lemma failed_step_recorded:
  assumes "(d, ws, Resolved (Failure m)) \<in> set steps" and "m \<noteq> []"
  shows "d @ '': '' @ m \<in> set (v_errors (foldl run_step v steps))"
  using assms
proof (induction steps arbitrary: v)
  case Nil
  then show ?case by simp
next
  case (Cons step steps)
  show ?case
  proof (cases "step = (d, ws, Resolved (Failure m))")
    case True
    then have "d @ '': '' @ m \<in> set (v_errors (run_step v step))"
      using Cons.prems by (simp add: run_step_def check_def Let_def)
    moreover from v_errors_foldl_run_step[of "run_step v step" steps] obtain es where
      "v_errors (foldl run_step (run_step v step) steps) = v_errors (run_step v step) @ es" ..
    ultimately show ?thesis by simp
  next
    case False
    with Cons.prems have "(d, ws, Resolved (Failure m)) \<in> set steps" by simp
    from Cons.IH[OF this Cons.prems(2)] show ?thesis by simp
  qed
qed

lemma first_missing_empty_object:
  "first_missing (JObj []) (k # ks) = Inr True"
  by (simp add: prop_missing_def)

lemma config_try_empty_platforms:
  assumes "fs ''config/platforms.json'' = Some (Parsed (JObj []))"
  shows "config_try fs \<noteq> Inr Success"
  using assms
  by (auto simp: config_try_def parse_file_def prop_missing_def
           split: sum.splits bool.splits option.splits file_content.splits)

lemma validateConfigurationFiles_empty_platforms:
  assumes "fs ''config/platforms.json'' = Some (Parsed (JObj []))"
  shows "\<exists>m. validateConfigurationFiles fs = Failure m \<and> m \<noteq> []"
proof (cases "find (\<lambda>p. fs p = None) configFiles")
  case (Some p)
  then show ?thesis by (simp add: validateConfigurationFiles_def)
next
  case None
  show ?thesis
  proof (cases "config_try fs")
    case (Inl e)
    with None show ?thesis by (simp add: validateConfigurationFiles_def)
  next
    case (Inr r)
    with config_try_empty_platforms[of fs] assms obtain m where
      r: "r = Failure m" by (cases r) auto
    with Inr have "m = ''Invalid AirTable schema structure''
                 \<or> m = ''Invalid platforms configuration structure''"
      by (auto simp: config_try_def split: sum.splits bool.splits)
    then have "m \<noteq> []" by auto
    with None Inr r show ?thesis by (simp add: validateConfigurationFiles_def)
  qed
qed

text \<open>
  C9.  When \<open>config/platforms.json\<close> holds the empty object \<open>{}\<close>, the
  configuration-files check returns a failure result (it neither passes nor throws),
  the failure is recorded in the validator's errors list under
  \<open>Configuration files\<close>, and the overall result of \<open>runValidation\<close> has
  \<open>success: false\<close>.  When the other two configuration files are present and the
  AirTable schema has its \<open>tables\<close> and \<open>base_name\<close>, the failure is
  \<open>Invalid platforms configuration structure\<close>.
\<close>

theorem empty_platforms_config_fails_validation:
  assumes "files env ''config/platforms.json'' = Some (Parsed (JObj []))"
  shows
    "(\<exists>m. validateConfigurationFiles (files env) = Failure m
          \<and> ''Configuration files: '' @ m \<in> set (vr_errors (runValidation env new_validator)))
     \<and> \<not> vr_success (runValidation env new_validator)
     \<and> (files env ''.env.example'' \<noteq> None
          \<and> files env ''config/airtable-schema.json'' = Some (Parsed schema)
          \<and> get_prop schema ''tables'' = Inr (Some t) \<and> truthy t
          \<and> get_prop schema ''base_name'' = Inr (Some b) \<and> truthy b \<longrightarrow>
        validateConfigurationFiles (files env)
          = Failure ''Invalid platforms configuration structure'')"
proof -
  from validateConfigurationFiles_empty_platforms[of "files env"] assms obtain m where
    m: "validateConfigurationFiles (files env) = Failure m" "m \<noteq> []" by blast
  then have "(''Configuration files'', [], Resolved (Failure m)) \<in> set (validation_steps env)"
    by (simp add: validation_steps_def)
  from failed_step_recorded[OF this m(2), of new_validator]
  have rec: "''Configuration files: '' @ m \<in> set (vr_errors (runValidation env new_validator))"
    by (simp add: runValidation_def Let_def)
  then have "vr_errors (runValidation env new_validator) \<noteq> []" by auto
  then have ns: "\<not> vr_success (runValidation env new_validator)"
    by (simp add: runValidation_def Let_def)
  have "validateConfigurationFiles (files env)
          = Failure ''Invalid platforms configuration structure''"
    if "files env ''.env.example'' \<noteq> None
          \<and> files env ''config/airtable-schema.json'' = Some (Parsed schema)
          \<and> get_prop schema ''tables'' = Inr (Some t) \<and> truthy t
          \<and> get_prop schema ''base_name'' = Inr (Some b) \<and> truthy b"
    using that assms
    by (auto simp: validateConfigurationFiles_def configFiles_def config_try_def
          parse_file_def prop_missing_def)
  with m rec ns show ?thesis by blast
qed

theorem empty_platforms_config_fails_validation_witness:
  "validateConfigurationFiles
     [''.env.example'' \<mapsto> Unparsable ''Unexpected token'',
      ''config/airtable-schema.json'' \<mapsto>
         Parsed (JObj [(''base_name'', JStr ''Viral''), (''tables'', JArr [])]),
      ''config/platforms.json'' \<mapsto> Parsed (JObj [])]
     = Failure ''Invalid platforms configuration structure''
   \<and> \<not> vr_success (runValidation
        \<lparr>files = [''.env.example'' \<mapsto> Unparsable ''Unexpected token'',
                  ''config/airtable-schema.json'' \<mapsto>
                     Parsed (JObj [(''base_name'', JStr ''Viral''), (''tables'', JArr [])]),
                  ''config/platforms.json'' \<mapsto> Parsed (JObj [])],
         systemDependencies = Resolved Success, environmentVariables = Resolved Success,
         workflowFiles = Resolved Success, promptFiles = Resolved Success,
         promptWarnings = [], documentation = Resolved Success,
         openAICredentials = Resolved Success, openAIWarnings = [],
         rapidAPICredentials = Resolved Success, apifyCredentials = Resolved Success,
         airTableCredentials = Resolved Success\<rparr> new_validator)"
proof -
  let ?schema = "JObj [(''base_name'', JStr ''Viral''), (''tables'', JArr [])]"
  let ?fs = "[''.env.example'' \<mapsto> Unparsable ''Unexpected token'',
              ''config/airtable-schema.json'' \<mapsto> Parsed ?schema,
              ''config/platforms.json'' \<mapsto> Parsed (JObj [])]"
  let ?env = "\<lparr>files = ?fs,
         systemDependencies = Resolved Success, environmentVariables = Resolved Success,
         workflowFiles = Resolved Success, promptFiles = Resolved Success,
         promptWarnings = [], documentation = Resolved Success,
         openAICredentials = Resolved Success, openAIWarnings = [],
         rapidAPICredentials = Resolved Success, apifyCredentials = Resolved Success,
         airTableCredentials = Resolved Success\<rparr>"
  have pre: "files ?env ''config/platforms.json'' = Some (Parsed (JObj []))"
    by simp
  have rest: "files ?env ''.env.example'' \<noteq> None
          \<and> files ?env ''config/airtable-schema.json'' = Some (Parsed ?schema)
          \<and> get_prop ?schema ''tables'' = Inr (Some (JArr [])) \<and> truthy (JArr [])
          \<and> get_prop ?schema ''base_name'' = Inr (Some (JStr ''Viral'')) \<and> truthy (JStr ''Viral'')"
    by simp
  from empty_platforms_config_fails_validation[of ?env ?schema "JArr []" "JStr ''Viral''"] pre rest
  show ?thesis by simp
qed


section \<open>Properties of the process manager\<close>

lemma map_of_map_delete_same [simp]: "map_of (map_delete nm ps) nm = None"
  by (induction ps) (auto simp: map_delete_def)

text \<open>
  C8.  Whatever its \<open>maxRestarts\<close>, its restart count and the state of the manager, a
  process whose child exits with code 0 is removed from the registry, and its exit
  handler schedules no restart: the only timer it touches is the process's own timeout,
  which it clears, and the only event is \<open>processExit\<close>.
\<close>

theorem on_exit_code_zero_removes:
  "map_of (processes (on_exit m r (Some 0) sg)) (name (heap m r)) = None
   \<and> timers (on_exit m r (Some 0) sg) = filter (\<lambda>t. \<not> is_timeout_of r t) (timers m)
   \<and> log (on_exit m r (Some 0) sg) = log m @ [ProcessExit (name (heap m r)) (Some 0) sg]
   \<and> restartCount (heap (on_exit m r (Some 0) sg) r) = restartCount (heap m r)"
  by (simp add: on_exit_def Let_def)

lemma crash_respawns:
  assumes "processes m = [(nm, r)]"
    and "heap m r = initial_config nm cmd as opts"
    and "timers m = []" and "\<not> isShuttingDown m" and "next_ref m = Suc r"
    and "0 < retries opts" and "timeout opts = 0" and "code \<noteq> 0"
  shows "processes (crash nm code m) = [(nm, Suc r)]
       \<and> heap (crash nm code m) (Suc r) = initial_config nm cmd as opts
       \<and> timers (crash nm code m) = [] \<and> \<not> isShuttingDown (crash nm code m)
       \<and> next_ref (crash nm code m) = Suc (Suc r)
       \<and> spawn_attempts (crash nm code m) = Suc (spawn_attempts m)"
  using assms
  by (simp add: crash_def on_exit_def Let_def run_timers_def fire_restart_def
        spawnProcess_def initial_config_def map_delete_def spawn_attempts_def
        is_timeout_of_def)

lemma crash_loop_respawns:
  assumes "processes m = [(nm, r)]"
    and "heap m r = initial_config nm cmd as opts"
    and "timers m = []" and "\<not> isShuttingDown m" and "next_ref m = Suc r"
    and "0 < retries opts" and "timeout opts = 0" and "code \<noteq> 0"
  shows "processes (crash_loop n nm code m) = [(nm, r + n)]
       \<and> heap (crash_loop n nm code m) (r + n) = initial_config nm cmd as opts
       \<and> timers (crash_loop n nm code m) = [] \<and> \<not> isShuttingDown (crash_loop n nm code m)
       \<and> next_ref (crash_loop n nm code m) = Suc (r + n)
       \<and> spawn_attempts (crash_loop n nm code m) = spawn_attempts m + n"
proof (induction n)
  case 0
  with assms show ?case by simp
next
  case (Suc n)
  let ?m = "crash_loop n nm code m"
  from Suc.IH have
    "processes ?m = [(nm, r + n)]" "heap ?m (r + n) = initial_config nm cmd as opts"
    "timers ?m = []" "\<not> isShuttingDown ?m" "next_ref ?m = Suc (r + n)"
    and k: "spawn_attempts ?m = spawn_attempts m + n"
    by simp_all
  from crash_respawns[OF this(1-5) assms(6-8)] k
  show ?case by simp
qed

text \<open>
  C1 fails on the code: the restart callback calls \<open>spawnProcess\<close> again, which builds
  a new configuration object with \<open>restartCount: 0\<close>, so the count never reaches
  \<open>maxRestarts\<close>.  After \<open>spawnProcess('x', 'false', [], {retries: 2, restartDelay: 0})\<close>
  and \<open>n\<close> exits with code 1, each followed by its restart timer, there have been
  \<open>n + 1\<close> spawn attempts for every \<open>n\<close> (four after three exits), \<open>x\<close> is still
  registered and its restart count is 0 again.
\<close>

theorem restart_count_reset_on_respawn:
  "spawn_attempts (crash_loop n ''x'' 1
      (snd (spawnProcess new_manager ''x'' ''false'' []
              \<lparr>timeout = 0, retries = 2, restartDelay = 0\<rparr>))) = n + 1
   \<and> map_of (processes (crash_loop n ''x'' 1
      (snd (spawnProcess new_manager ''x'' ''false'' []
              \<lparr>timeout = 0, retries = 2, restartDelay = 0\<rparr>)))) ''x'' = Some n
   \<and> restartCount (heap (crash_loop n ''x'' 1
      (snd (spawnProcess new_manager ''x'' ''false'' []
              \<lparr>timeout = 0, retries = 2, restartDelay = 0\<rparr>))) n) = 0"
proof -
  let ?opts = "\<lparr>timeout = 0, retries = 2, restartDelay = 0\<rparr>"
  let ?m = "snd (spawnProcess new_manager ''x'' ''false'' [] ?opts)"
  have "processes ?m = [(''x'', 0)]"
    and "heap ?m 0 = initial_config ''x'' ''false'' [] ?opts"
    and "timers ?m = []" and "\<not> isShuttingDown ?m" and "next_ref ?m = Suc 0"
    and k: "spawn_attempts ?m = 1"
    by (simp_all add: spawnProcess_def new_manager_def spawn_attempts_def)
  from crash_loop_respawns[OF this(1-5), of 1 n] k
  show ?thesis by (simp add: initial_config_def)
qed

lemma map_of_map_delete_other:
  "k \<noteq> nm \<Longrightarrow> map_of (map_delete nm ps) k = map_of ps k"
  by (induction ps) (auto simp: map_delete_def)

lemma map_of_map_delete_Some:
  "map_of (map_delete nm ps) k = Some r \<Longrightarrow> map_of ps k = Some r"
  by (cases "k = nm") (simp_all add: map_of_map_delete_other)

lemma lookup_in_names: "map_of ps nm = Some r \<Longrightarrow> nm \<in> fst ` set ps"
  by (force dest!: map_of_SomeD)

lemma registered_iff: "registered m r \<longleftrightarrow> (\<exists>nm. map_of (processes m) nm = Some r)"
proof
  assume "registered m r"
  then show "\<exists>nm. map_of (processes m) nm = Some r"
    by (auto simp: registered_def list_ex_iff)
next
  assume "\<exists>nm. map_of (processes m) nm = Some r"
  then obtain nm where nm: "map_of (processes m) nm = Some r" ..
  then have "nm \<in> fst ` set (processes m)"
    by (rule lookup_in_names)
  with nm show "registered m r"
    by (auto simp: registered_def list_ex_iff)
qed

lemma killProcess_processes [simp]:
  "processes (snd (killProcess m nm sg)) = processes m"
  by (simp add: killProcess_def Let_def split: option.splits)

lemma killProcess_exited [simp]:
  "exited (process (heap (snd (killProcess m nm sg)) r)) = exited (process (heap m r))"
  by (simp add: killProcess_def Let_def kill_child_def split: option.splits)

lemma killProcess_killed:
  "killed (process (heap (snd (killProcess m nm sg)) r)) \<longleftrightarrow>
     killed (process (heap m r))
     \<or> (map_of (processes m) nm = Some r \<and> \<not> exited (process (heap m r)))"
  by (auto simp: killProcess_def Let_def kill_child_def split: option.splits)

lemma killProcess_received:
  "received_by (snd (killProcess m nm sg)) r =
     received_by m r @
       (if map_of (processes m) nm = Some r \<and> \<not> killed (process (heap m r))
           \<and> \<not> exited (process (heap m r))
        then [sg] else [])"
  by (auto simp: killProcess_def Let_def kill_child_def received_by_def split: option.splits)

lemma killProcess_not_found:
  "map_of (processes m) nm = None \<Longrightarrow> killProcess m nm sg = (Inl (NotFound nm), m)"
  by (simp add: killProcess_def)

lemma snd_stop_begin: "snd (stop_begin m nm) = snd (killProcess m nm SIGTERM)"
proof (cases "map_of (processes m) nm")
  case None
  then show ?thesis by (simp add: stop_begin_def killProcess_not_found)
next
  case (Some r)
  then show ?thesis
    by (simp add: stop_begin_def killProcess_def Let_def)
qed

lemma snd_stop_begin_all_Cons:
  "snd (stop_begin_all m (nm # nms)) = snd (stop_begin_all (snd (killProcess m nm SIGTERM)) nms)"
proof -
  obtain w m' where sb: "stop_begin m nm = (w, m')"
    by (cases "stop_begin m nm")
  with snd_stop_begin[of m nm] have m': "m' = snd (killProcess m nm SIGTERM)" by simp
  obtain ws m'' where sba: "stop_begin_all m' nms = (ws, m'')"
    by (cases "stop_begin_all m' nms")
  show ?thesis using sb sba m' by simp
qed

lemma stop_begin_all_effect:
  "processes (snd (stop_begin_all m nms)) = processes m
   \<and> (\<forall>r. exited (process (heap (snd (stop_begin_all m nms)) r)) = exited (process (heap m r)))
   \<and> (\<forall>r. killed (process (heap (snd (stop_begin_all m nms)) r)) \<longleftrightarrow>
          killed (process (heap m r))
          \<or> (\<not> exited (process (heap m r))
              \<and> (\<exists>nm \<in> set nms. map_of (processes m) nm = Some r)))
   \<and> (\<forall>r. received_by (snd (stop_begin_all m nms)) r =
          received_by m r @
            (if \<not> killed (process (heap m r)) \<and> \<not> exited (process (heap m r))
                \<and> (\<exists>nm \<in> set nms. map_of (processes m) nm = Some r)
             then [SIGTERM] else []))"
proof (induction nms arbitrary: m)
  case Nil
  show ?case by simp
next
  case (Cons nm nms)
  let ?m1 = "snd (killProcess m nm SIGTERM)"
  have step: "snd (stop_begin_all m (nm # nms)) = snd (stop_begin_all ?m1 nms)"
    by (rule snd_stop_begin_all_Cons)
  note IH = Cons.IH[of ?m1]
  have p: "processes (snd (stop_begin_all m (nm # nms))) = processes m"
    unfolding step using IH by simp
  have e: "exited (process (heap (snd (stop_begin_all m (nm # nms))) r))
             = exited (process (heap m r))" for r
    unfolding step using IH by simp
  have k: "killed (process (heap (snd (stop_begin_all m (nm # nms))) r)) \<longleftrightarrow>
          killed (process (heap m r))
          \<or> (\<not> exited (process (heap m r))
              \<and> (\<exists>nm' \<in> set (nm # nms). map_of (processes m) nm' = Some r))" for r
    unfolding step using IH by (auto simp: killProcess_killed)
  have rc: "received_by (snd (stop_begin_all m (nm # nms))) r =
          received_by m r @
            (if \<not> killed (process (heap m r)) \<and> \<not> exited (process (heap m r))
                \<and> (\<exists>nm' \<in> set (nm # nms). map_of (processes m) nm' = Some r)
             then [SIGTERM] else [])" for r
    unfolding step using IH by (auto simp: killProcess_killed killProcess_received)
  from p e k rc show ?case by blast
qed

lemma on_exit_received [simp]: "received_by (on_exit m r code sg) r' = received_by m r'"
  by (simp add: on_exit_def Let_def received_by_def)

lemma on_exit_killed [simp]:
  "killed (process (heap (on_exit m r code sg) r')) = killed (process (heap m r'))"
  by (simp add: on_exit_def Let_def)

lemma on_exit_exited:
  "exited (process (heap m r')) \<Longrightarrow> exited (process (heap (on_exit m r code sg) r'))"
  by (simp add: on_exit_def Let_def)

lemma on_exit_lookup:
  "map_of (processes (on_exit m r code sg)) nm = Some r' \<Longrightarrow>
   map_of (processes m) nm = Some r'"
  by (auto simp: on_exit_def Let_def split: if_splits dest: map_of_map_delete_Some)

lemma stop_finish_quiet:
  assumes "all_signalled m"
  shows "all_signalled (stop_finish env m nm)
       \<and> (\<forall>r. received_by (stop_finish env m nm) r = received_by m r)"
proof (cases "map_of (processes m) nm")
  case None
  with assms show ?thesis by (simp add: stop_finish_def)
next
  case (Some r)
  show ?thesis
  proof (cases "pc_status (heap m r) = Exited")
    case True
    with Some assms show ?thesis by (simp add: stop_finish_def)
  next
    case False
    show ?thesis
    proof (cases "env r")
      case None
      then have sf: "stop_finish env m nm = snd (killProcess m nm SIGKILL)"
        using Some False by (simp add: stop_finish_def)
      have "all_signalled (snd (killProcess m nm SIGKILL))"
        using assms by (auto simp: all_signalled_def killProcess_killed)
      moreover have "received_by (snd (killProcess m nm SIGKILL)) r' = received_by m r'" for r'
        using assms by (auto simp: killProcess_received all_signalled_def)
      ultimately show ?thesis by (simp add: sf)
    next
      case (Some cs)
      obtain code sg where cs: "cs = (code, sg)" by (cases cs)
      have sf: "stop_finish env m nm = on_exit m r code sg"
        using \<open>map_of (processes m) nm = Some r\<close> False Some cs
        by (simp add: stop_finish_def)
      have "all_signalled (on_exit m r code sg)"
        unfolding all_signalled_def
      proof (intro allI impI)
        fix nm' r'
        assume "map_of (processes (on_exit m r code sg)) nm' = Some r'"
        from on_exit_lookup[OF this] assms
        have "killed (process (heap m r')) \<or> exited (process (heap m r'))"
          by (simp add: all_signalled_def)
        then show "killed (process (heap (on_exit m r code sg) r'))
                 \<or> exited (process (heap (on_exit m r code sg) r'))"
          by (auto intro: on_exit_exited)
      qed
      then show ?thesis by (simp add: sf)
    qed
  qed
qed

lemma foldl_stop_finish_quiet:
  assumes "all_signalled m"
  shows "all_signalled (foldl (stop_finish env) m nms)
       \<and> (\<forall>r. received_by (foldl (stop_finish env) m nms) r = received_by m r)"
  using assms
proof (induction nms arbitrary: m)
  case Nil
  then show ?case by simp
next
  case (Cons nm nms)
  from stop_finish_quiet[OF Cons.prems, of env nm]
  have a: "all_signalled (stop_finish env m nm)"
    and r: "\<And>r. received_by (stop_finish env m nm) r = received_by m r"
    by simp_all
  from Cons.IH[OF a] r show ?case by simp
qed

lemma shutdown_unfold:
  "\<not> isShuttingDown m \<Longrightarrow>
   shutdown env m =
     (foldl (stop_finish env)
        (snd (stop_begin_all (m\<lparr>isShuttingDown := True, log := log m @ [Shutdown_event]\<rparr>)
                (map fst (processes m))))
        (fst (stop_begin_all (m\<lparr>isShuttingDown := True, log := log m @ [Shutdown_event]\<rparr>)
                (map fst (processes m)))))
     \<lparr>processes := []\<rparr>"
  by (simp add: shutdown_def Let_def split: prod.splits)

lemma shutdown_received:
  assumes "\<not> isShuttingDown m"
  shows "received_by (shutdown env m) r =
           received_by m r @
             (if registered m r \<and> \<not> killed (process (heap m r))
                 \<and> \<not> exited (process (heap m r))
              then [SIGTERM] else [])"
proof -
  let ?m1 = "m\<lparr>isShuttingDown := True, log := log m @ [Shutdown_event]\<rparr>"
  let ?nms = "map fst (processes m)"
  let ?m2 = "snd (stop_begin_all ?m1 ?nms)"
  let ?ws = "fst (stop_begin_all ?m1 ?nms)"
  let ?m3 = "foldl (stop_finish env) ?m2 ?ws"
  have sd: "shutdown env m = ?m3\<lparr>processes := []\<rparr>"
    using assms by (simp add: shutdown_def Let_def split: prod.splits)
  note eff = stop_begin_all_effect[of ?m1 ?nms]
  have in_names: "nm \<in> set ?nms" if "map_of (processes m) nm = Some r'" for nm r'
    using lookup_in_names[OF that] by simp
  have "all_signalled ?m2"
    unfolding all_signalled_def
  proof (intro allI impI)
    fix nm r'
    assume "map_of (processes ?m2) nm = Some r'"
    with eff have l: "map_of (processes m) nm = Some r'" by simp
    with in_names[OF l] eff
    show "killed (process (heap ?m2 r')) \<or> exited (process (heap ?m2 r'))"
      by auto
  qed
  from foldl_stop_finish_quiet[OF this, of env ?ws]
  have "received_by ?m3 r = received_by ?m2 r" by simp
  also have "\<dots> = received_by ?m1 r @
            (if \<not> killed (process (heap ?m1 r)) \<and> \<not> exited (process (heap ?m1 r))
                \<and> (\<exists>nm \<in> set ?nms. map_of (processes ?m1) nm = Some r)
             then [SIGTERM] else [])"
    using eff by blast
  also have "\<dots> = received_by m r @
             (if registered m r \<and> \<not> killed (process (heap m r))
                 \<and> \<not> exited (process (heap m r))
              then [SIGTERM] else [])"
    by (auto simp: received_by_def registered_def list_ex_iff)
  finally show ?thesis by (simp add: sd received_by_def)
qed

lemma shutdown_processes:
  "\<not> isShuttingDown m \<Longrightarrow> processes (shutdown env m) = []"
  by (simp add: shutdown_def Let_def split: prod.splits)


text \<open>
  C7 as stated fails: \<open>shutdown\<close> returns at once when the manager is already shutting
  down, and the flag is never reset.  After a first \<open>shutdown()\<close>, a process spawned
  under the name \<open>worker\<close> stays in the registry through a second \<open>shutdown()\<close> and
  receives no signal.
\<close>

theorem shutdown_twice_leaves_process:
  "processes (shutdown cooperative
      (snd (spawnProcess (shutdown cooperative new_manager) ''worker'' ''node''
              [''server.js''] default_spawn_options)))
     = [(''worker'', 0)]
   \<and> received_by (shutdown cooperative
      (snd (spawnProcess (shutdown cooperative new_manager) ''worker'' ''node''
              [''server.js''] default_spawn_options))) 0
     = []"
  by (simp add: shutdown_def new_manager_def spawnProcess_def received_by_def
        initial_config_def new_child_def Let_def)

text \<open>
  C7 amended.  When the manager is not already shutting down, \<open>shutdown()\<close> sends
  \<open>SIGTERM\<close> to every registered process whose child has not exited and has not been
  signalled before, all of them before it waits for any exit; it takes back no signal
  that a child has received, and afterwards the registry is empty and the manager is
  shutting down.  When the manager is already shutting down, \<open>shutdown()\<close> does
  nothing.
\<close>

theorem shutdown_signals_and_clears:
  "(\<not> isShuttingDown m \<longrightarrow>
      processes (shutdown env m) = []
      \<and> isShuttingDown (shutdown env m)
      \<and> (\<forall>r. registered m r \<and> \<not> exited (process (heap m r))
               \<and> \<not> killed (process (heap m r)) \<longrightarrow>
             SIGTERM \<in> set (received_by
                 (snd (stop_begin_all
                         (m\<lparr>isShuttingDown := True, log := log m @ [Shutdown_event]\<rparr>)
                         (map fst (processes m)))) r)
             \<and> SIGTERM \<in> set (received_by (shutdown env m) r))
      \<and> (\<forall>r. set (received_by m r) \<subseteq> set (received_by (shutdown env m) r)))
   \<and> (isShuttingDown m \<longrightarrow> shutdown env m = m)"
proof (intro conjI impI allI)
  assume n: "\<not> isShuttingDown m"
  show "processes (shutdown env m) = []"
    using n by (rule shutdown_processes)
  show "isShuttingDown (shutdown env m)"
  proof -
    let ?m1 = "m\<lparr>isShuttingDown := True, log := log m @ [Shutdown_event]\<rparr>"
    have b: "isShuttingDown (snd (killProcess m' nm sg)) = isShuttingDown m'" for m' nm sg
      by (simp add: killProcess_def Let_def split: option.splits)
    have p1: "isShuttingDown (snd (stop_begin_all m' nms)) = isShuttingDown m'" for m' nms
    proof (induction nms arbitrary: m')
      case Nil
      show ?case by simp
    next
      case (Cons nm nms)
      from Cons.IH[of "snd (killProcess m' nm SIGTERM)"] b[of m' nm SIGTERM]
      show ?case unfolding snd_stop_begin_all_Cons by simp
    qed
    have f: "isShuttingDown (stop_finish env m' nm) = isShuttingDown m'" for m' nm
      by (simp add: stop_finish_def on_exit_def Let_def b split: option.splits)
    have p2: "isShuttingDown (foldl (stop_finish env) m' nms) = isShuttingDown m'" for m' nms
      by (induction nms arbitrary: m') (simp_all add: f)
    show ?thesis
      using n by (simp add: shutdown_unfold p1 p2)
  qed
next
  fix r
  assume n: "\<not> isShuttingDown m"
    and a: "registered m r \<and> \<not> exited (process (heap m r)) \<and> \<not> killed (process (heap m r))"
  from a have "\<exists>nm \<in> set (map fst (processes m)). map_of (processes m) nm = Some r"
    by (simp add: registered_def list_ex_iff)
  with a stop_begin_all_effect
           [of "m\<lparr>isShuttingDown := True, log := log m @ [Shutdown_event]\<rparr>"
               "map fst (processes m)"]
  show "SIGTERM \<in> set (received_by
                 (snd (stop_begin_all
                         (m\<lparr>isShuttingDown := True, log := log m @ [Shutdown_event]\<rparr>)
                         (map fst (processes m)))) r)"
    by (simp add: received_by_def)
  from a shutdown_received[OF n, of env r]
  show "SIGTERM \<in> set (received_by (shutdown env m) r)"
    by simp
next
  fix r
  assume n: "\<not> isShuttingDown m"
  from shutdown_received[OF n, of env r]
  show "set (received_by m r) \<subseteq> set (received_by (shutdown env m) r)"
    by auto
next
  assume "isShuttingDown m"
  then show "shutdown env m = m" by (simp add: shutdown_def)
qed

lemma two_workers:
  "processes (snd (spawnProcess (snd (spawnProcess new_manager ''api'' ''node'' []
                 default_spawn_options)) ''web'' ''node'' [] default_spawn_options))
     = [(''api'', 0), (''web'', 1)]
   \<and> \<not> isShuttingDown (snd (spawnProcess (snd (spawnProcess new_manager ''api'' ''node'' []
                 default_spawn_options)) ''web'' ''node'' [] default_spawn_options))
   \<and> process (heap (snd (spawnProcess (snd (spawnProcess new_manager ''api'' ''node'' []
                 default_spawn_options)) ''web'' ''node'' [] default_spawn_options)) 0)
       = new_child
   \<and> process (heap (snd (spawnProcess (snd (spawnProcess new_manager ''api'' ''node'' []
                 default_spawn_options)) ''web'' ''node'' [] default_spawn_options)) 1)
       = new_child"
  by (simp add: spawnProcess_def new_manager_def initial_config_def Let_def)

theorem shutdown_signals_and_clears_witness:
  "processes (shutdown stubborn
      (snd (spawnProcess (snd (spawnProcess new_manager ''api'' ''node'' []
              default_spawn_options)) ''web'' ''node'' [] default_spawn_options))) = []
   \<and> SIGTERM \<in> set (received_by (shutdown stubborn
      (snd (spawnProcess (snd (spawnProcess new_manager ''api'' ''node'' []
              default_spawn_options)) ''web'' ''node'' [] default_spawn_options))) 0)
   \<and> SIGTERM \<in> set (received_by (shutdown stubborn
      (snd (spawnProcess (snd (spawnProcess new_manager ''api'' ''node'' []
              default_spawn_options)) ''web'' ''node'' [] default_spawn_options))) 1)
   \<and> shutdown stubborn (shutdown stubborn new_manager) = shutdown stubborn new_manager"
proof -
  let ?m = "snd (spawnProcess (snd (spawnProcess new_manager ''api'' ''node'' []
              default_spawn_options)) ''web'' ''node'' [] default_spawn_options)"
  note tw = two_workers
  have n: "\<not> isShuttingDown ?m" using tw by blast
  have r0: "registered ?m 0 \<and> \<not> exited (process (heap ?m 0)) \<and> \<not> killed (process (heap ?m 0))"
    using tw by (simp add: registered_def new_child_def)
  have r1: "registered ?m 1 \<and> \<not> exited (process (heap ?m 1)) \<and> \<not> killed (process (heap ?m 1))"
    using tw by (simp add: registered_def new_child_def)
  have n0: "\<not> isShuttingDown new_manager" by (simp add: new_manager_def)
  from shutdown_signals_and_clears[of ?m stubborn] n r0 r1
  have "processes (shutdown stubborn ?m) = []"
    and "SIGTERM \<in> set (received_by (shutdown stubborn ?m) 0)"
    and "SIGTERM \<in> set (received_by (shutdown stubborn ?m) 1)"
    by blast+
  moreover have "shutdown stubborn (shutdown stubborn new_manager) = shutdown stubborn new_manager"
    using shutdown_signals_and_clears[of new_manager stubborn]
          shutdown_signals_and_clears[of "shutdown stubborn new_manager" stubborn] n0
    by blast
  ultimately show ?thesis by blast
qed

text \<open>
  The forced kill of \<open>shutdown\<close> never reaches a child.  Both the \<open>catch\<close> block of
  \<open>shutdown\<close> (through \<open>killProcess\<close>) and the five-second timer of \<open>killProcess\<close> send
  \<open>SIGKILL\<close> only when \<open>childProcess.killed\<close> is false, and the \<open>SIGTERM\<close> sent
  before has set it.  So \<open>shutdown\<close> delivers exactly one \<open>SIGTERM\<close> to each registered
  child that was alive and unsignalled, and nothing else; a child that ignores
  \<open>SIGTERM\<close> is still running after the shutdown and after all timers have fired.
\<close>

lemma shutdown_delivers_only_sigterm:
  "\<not> isShuttingDown m \<Longrightarrow>
   received_by (shutdown env m) r =
     received_by m r @
       (if registered m r \<and> \<not> killed (process (heap m r)) \<and> \<not> exited (process (heap m r))
        then [SIGTERM] else [])"
  by (rule shutdown_received)

lemma straggler_survives_shutdown:
  "received_by (run_timers (shutdown stubborn
      (snd (spawnProcess new_manager ''worker'' ''node'' [''server.js'']
              default_spawn_options)))) 0 = [SIGTERM]
   \<and> \<not> exited (process (heap (run_timers (shutdown stubborn
      (snd (spawnProcess new_manager ''worker'' ''node'' [''server.js'']
              default_spawn_options)))) 0))
   \<and> processes (run_timers (shutdown stubborn
      (snd (spawnProcess new_manager ''worker'' ''node'' [''server.js'']
              default_spawn_options)))) = []"
  by (simp add: shutdown_def new_manager_def spawnProcess_def received_by_def
        initial_config_def new_child_def Let_def default_spawn_options_def
        killProcess_def kill_child_def stop_begin_def stop_finish_def stubborn_def
        run_timers_def fire_kill_def)


section \<open>Properties of the startup sequencer\<close>




text \<open>
  The regular expression of the coverage step never yields more than one digit, so the
  figure is below 80 whenever there is one.
\<close>

lemma last_filter_is_digit:
  "filter is_digit xs = d # ds \<Longrightarrow> is_digit (last (d # ds))"
proof -
  assume a: "filter is_digit xs = d # ds"
  have "last (d # ds) \<in> set (d # ds)" by (rule last_in_set) simp
  with a have "last (d # ds) \<in> set (filter is_digit xs)" by simp
  then show ?thesis by simp
qed

lemma coverage_tail_digit: "coverage_tail s = Some d \<Longrightarrow> is_digit d"
  by (auto simp: coverage_tail_def split: option.splits list.splits
           dest!: last_filter_is_digit)

lemma coverage_match_digit: "coverage_match s = Some d \<Longrightarrow> is_digit d"
  by (induction s) (auto split: if_splits option.splits dest: coverage_tail_digit)

lemma digit_value_below_ten: "is_digit d \<Longrightarrow> digit_value d < 10"
  by (auto simp: is_digit_def digit_value_def)

lemma runCoverageReport_figure_always_low:
  "runCoverageReport opts env \<noteq> Inr (Pass (''Coverage: '' @ show_nat n @ ''%''))"
proof -
  have "coverage_match out = Some d \<Longrightarrow> digit_value d < 80" for out d
    using coverage_match_digit[of out d] digit_value_below_ten[of d] by simp
  then show ?thesis
    by (auto simp: runCoverageReport_def Let_def split: exec_outcome.splits option.splits)
qed













end
